theory Spec2Isabelle
  imports Complex_Main "HOL-Library.AList" "HOL-Library.Multiset"
begin

section \<open>Text primitives of the Python runtime\<close>

text \<open>
  A Python \<open>str\<close> is modelled as a \<open>string\<close> whose characters are read as the code
  points 0..255. On that range the three tables below are the ones of CPython:
  \<open>str.strip\<close>/\<open>str.rstrip\<close> remove the characters for which \<open>str.isspace\<close> holds,
  the regular expression class \<open>\w\<close> is the alphanumeric characters and the underscore,
  and \<open>str.lower\<close> maps one character to one character.
\<close>

definition is_space :: "char \<Rightarrow> bool" where
  "is_space c = (let n = (of_char c :: nat) in
     (9 \<le> n \<and> n \<le> 13) \<or> (28 \<le> n \<and> n \<le> 32) \<or> n = 133 \<or> n = 160)"

definition is_word :: "char \<Rightarrow> bool" where
  "is_word c = (let n = (of_char c :: nat) in
     (48 \<le> n \<and> n \<le> 57) \<or> (65 \<le> n \<and> n \<le> 90) \<or> n = 95 \<or> (97 \<le> n \<and> n \<le> 122) \<or>
     n = 170 \<or> n = 178 \<or> n = 179 \<or> n = 181 \<or> n = 185 \<or> n = 186 \<or>
     (188 \<le> n \<and> n \<le> 190) \<or> (192 \<le> n \<and> n \<le> 214) \<or> (216 \<le> n \<and> n \<le> 246) \<or>
     (248 \<le> n \<and> n \<le> 255))"

definition lower_char :: "char \<Rightarrow> char" where
  "lower_char c = (let n = (of_char c :: nat) in
     if (65 \<le> n \<and> n \<le> 90) \<or> (192 \<le> n \<and> n \<le> 214) \<or> (216 \<le> n \<and> n \<le> 222)
     then char_of (n + 32) else c)"

definition lower :: "string \<Rightarrow> string" where
  "lower s = map lower_char s"

definition lstrip :: "string \<Rightarrow> string" where
  "lstrip s = dropWhile is_space s"

definition rstrip :: "string \<Rightarrow> string" where
  "rstrip s = rev (dropWhile is_space (rev s))"

definition strip :: "string \<Rightarrow> string" where
  "strip s = rstrip (lstrip s)"

definition endswith :: "string \<Rightarrow> string \<Rightarrow> bool" where
  "endswith s p = (length p \<le> length s \<and> drop (length s - length p) s = p)"

text \<open>\<open>sep.join(parts)\<close>.\<close>

fun join :: "string \<Rightarrow> string list \<Rightarrow> string" where
  "join sep [] = []"
| "join sep [p] = p"
| "join sep (p # q # ps) = p @ sep @ join sep (q # ps)"

section \<open>Streaming chat pipeline (routes.py, chat)\<close>

subsection \<open>The bracket-stripping substitution\<close>

text \<open>
  \<open>re.sub(r'\[.*?\]', '', buffer)\<close>. A match starts at a \<open>[\<close> and ends at the first
  \<open>]\<close> after it, provided no line feed stands between them (\<open>.\<close> does not match a
  line feed). \<open>find_close\<close> looks for that \<open>]\<close> and returns the text after it; the
  scan resumes there, as \<open>re.sub\<close> replaces the non-overlapping matches from the left.
\<close>

fun find_close :: "string \<Rightarrow> string option" where
  "find_close [] = None"
| "find_close (c # cs) =
     (if c = CHR '']'' then Some cs
      else if c = CHR 0x0A then None
      else find_close cs)"

lemma find_close_shorter: "find_close cs = Some r \<Longrightarrow> length r < length cs"
  by (induction cs) (auto split: if_splits)

function strip_brackets :: "string \<Rightarrow> string" where
  "strip_brackets [] = []"
| "strip_brackets (c # cs) =
     (if c = CHR ''[''
      then (case find_close cs of
              Some rest \<Rightarrow> strip_brackets rest
            | None \<Rightarrow> c # strip_brackets cs)
      else c # strip_brackets cs)"
  by pat_completeness auto
termination
  by (relation "measure length") (auto dest: find_close_shorter)

subsection \<open>Events, the turn's state and the token loop\<close>

text \<open>
  The events a turn sends on the websocket: \<open>send_json\<close> of a text chunk, \<open>send_bytes\<close>
  of the encoded audio, \<open>send_json\<close> of the terminal event. The type parameter is the
  type of the encoded audio.
\<close>

datatype 'a event = TextChunk string | AudioBytes 'a | Done

record 'a turn =
  buffer :: string
  full_response :: string
  sent :: "'a event list"

definition delimiters :: "string list" where
  "delimiters = [''.'', ''!'', ''?'', '','', '':'', '';'']"

text \<open>
  One iteration of \<open>for output in stream\<close>, for the token \<open>token\<close>. The parameter
  \<open>synth\<close> stands for \<open>audio_to_wav_bytes(tts.apply_tts(text=clean, ...), sample_rate)\<close>
  at the turn's voice and sample rate; \<open>None\<close> is an exception raised there, which
  aborts the turn: the result \<open>Inl evs\<close> is an aborted turn that had sent \<open>evs\<close>
  (the text chunk is sent before the synthesis is attempted). The profiler calls and
  the log lines of the loop change neither the events nor the history and are left out.
\<close>

definition chat_token :: "(string \<Rightarrow> 'a option) \<Rightarrow> 'a turn \<Rightarrow> string \<Rightarrow> 'a event list + 'a turn" where
  "chat_token synth st token =
     (let buf = buffer st @ token;
          full = full_response st @ token
      in if list_ex (\<lambda>p. endswith (rstrip buf) p) delimiters \<and> length buf > 5
         then
           (let clean = strip (strip_brackets buf)
            in if clean \<noteq> []
               then (case synth clean of
                       None \<Rightarrow> Inl (sent st @ [TextChunk (clean @ '' '')])
                     | Some wav \<Rightarrow>
                         Inr \<lparr>buffer = [], full_response = full,
                              sent = sent st @ [TextChunk (clean @ '' ''), AudioBytes wav]\<rparr>)
               else Inr \<lparr>buffer = [], full_response = full, sent = sent st\<rparr>)
         else Inr \<lparr>buffer = buf, full_response = full, sent = sent st\<rparr>)"

fun chat_loop :: "(string \<Rightarrow> 'a option) \<Rightarrow> 'a turn \<Rightarrow> string list \<Rightarrow> 'a event list + 'a turn" where
  "chat_loop synth st [] = Inr st"
| "chat_loop synth st (token # stream) =
     (case chat_token synth st token of
        Inl evs \<Rightarrow> Inl evs
      | Inr st' \<Rightarrow> chat_loop synth st' stream)"

text \<open>The block under \<open># Flush remaining\<close>.\<close>

definition flush_remaining :: "(string \<Rightarrow> 'a option) \<Rightarrow> 'a turn \<Rightarrow> 'a event list + 'a turn" where
  "flush_remaining synth st =
     (if strip (buffer st) \<noteq> []
      then
        (let clean = strip (strip_brackets (buffer st))
         in if clean \<noteq> []
            then (case synth clean of
                    None \<Rightarrow> Inl (sent st @ [TextChunk clean])
                  | Some wav \<Rightarrow> Inr (st\<lparr>sent := sent st @ [TextChunk clean, AudioBytes wav]\<rparr>))
            else Inr st)
      else Inr st)"

subsection \<open>Conversation history (config.py, HistoryManager)\<close>

record exchange =
  timestamp :: string
  user :: string
  assistant :: string

text \<open>
  \<open>history\<close> is \<open>self._history\<close>; \<open>history_file\<close> is the content of the history file,
  \<open>None\<close> while the file does not exist. \<open>save\<close> writes \<open>self._history[-100:]\<close>; an
  exception of the write is caught and logged there, and the model follows the write
  that succeeds.
\<close>

record history_manager =
  history :: "exchange list"
  history_file :: "exchange list option"

definition MAX_HISTORY :: nat where
  "MAX_HISTORY = 100"

definition HistoryManager_save :: "history_manager \<Rightarrow> history_manager" where
  "HistoryManager_save h =
     h\<lparr>history_file := Some (drop (length (history h) - MAX_HISTORY) (history h))\<rparr>"

text \<open>\<open>now\<close> is \<open>datetime.now().isoformat()\<close> at the call.\<close>

definition HistoryManager_add :: "string \<Rightarrow> history_manager \<Rightarrow> string \<Rightarrow> string \<Rightarrow> history_manager" where
  "HistoryManager_add now h user_text assistant_text =
     (let h' = h\<lparr>history := history h @
                   [\<lparr>timestamp = now, user = user_text, assistant = assistant_text\<rparr>]\<rparr>
      in if length (history h') mod 5 = 0 then HistoryManager_save h' else h')"

subsection \<open>One chat turn\<close>

text \<open>
  The body of \<open>chat\<close> from the received message on: \<open>stream\<close> is the sequence of token
  texts the language model yields for the prompt, \<open>h\<close> the history manager. The result
  is the events sent and the history manager after the turn. An empty user text closes
  the connection at once; an aborted turn sends no terminal event and adds nothing to
  the history.
\<close>

definition chat ::
  "(string \<Rightarrow> 'a option) \<Rightarrow> string \<Rightarrow> string \<Rightarrow> string list \<Rightarrow> history_manager
     \<Rightarrow> 'a event list \<times> history_manager" where
  "chat synth now user_text stream h =
     (if user_text = [] then ([], h)
      else
        (case chat_loop synth \<lparr>buffer = [], full_response = [], sent = []\<rparr> stream of
           Inl evs \<Rightarrow> (evs, h)
         | Inr st \<Rightarrow>
             (case flush_remaining synth st of
                Inl evs \<Rightarrow> (evs, h)
              | Inr st' \<Rightarrow>
                  (sent st' @ [Done],
                   HistoryManager_add now h user_text (strip (full_response st'))))))"

section \<open>Retrieval scorer (rag.py, SimpleRAG)\<close>

text \<open>
  A knowledge chunk, the dictionary built in \<open>_split_content\<close>; \<open>doc_keywords\<close> is its
  entry \<open>'keywords'\<close>.
\<close>

record chunk =
  content :: string
  source :: string
  doc_keywords :: "string set"

text \<open>
  \<open>re.findall(r'\b\w{3,}\b', s)\<close>: the matches are the maximal runs of word characters
  that are at least three characters long, from the left. \<open>word_runs\<close> collects the
  maximal runs (\<open>cur\<close> is the run being read).
\<close>

fun word_runs :: "string \<Rightarrow> string \<Rightarrow> string list" where
  "word_runs cur [] = (if cur = [] then [] else [cur])"
| "word_runs cur (c # cs) =
     (if is_word c then word_runs (cur @ [c]) cs
      else (if cur = [] then [] else [cur]) @ word_runs [] cs)"

definition findall_words :: "string \<Rightarrow> string list" where
  "findall_words s = filter (\<lambda>w. 3 \<le> length w) (word_runs [] s)"

definition startswith :: "string \<Rightarrow> string \<Rightarrow> bool" where
  "startswith s p = (take (length p) s = p)"

text \<open>The lookahead \<open>(?=#{1,3} )\<close>: one to three \<open>#\<close>, then a space.\<close>

definition heading_ahead :: "string \<Rightarrow> bool" where
  "heading_ahead s = (startswith s ''# '' \<or> startswith s ''## '' \<or> startswith s ''### '')"

text \<open>
  \<open>re.split(r'\n(?=#{1,3} )', content)\<close>: the text is cut at every line feed that a
  heading follows, and the line feed is dropped (\<open>cur\<close> is the piece being read).
\<close>

fun re_split :: "string \<Rightarrow> string \<Rightarrow> string list" where
  "re_split cur [] = [cur]"
| "re_split cur (c # cs) =
     (if c = CHR 0x0A \<and> heading_ahead cs then cur # re_split [] cs
      else re_split (cur @ [c]) cs)"

text \<open>The loop \<open>for section in sections\<close> of \<open>_split_content\<close>.\<close>

fun split_sections :: "string \<Rightarrow> string list \<Rightarrow> chunk list" where
  "split_sections src [] = []"
| "split_sections src (section # sections) =
     (let section' = strip section
      in if length section' > 20
         then \<lparr>content = section', source = src,
                doc_keywords = set (findall_words (lower section'))\<rparr> # split_sections src sections
         else split_sections src sections)"

definition SimpleRAG_split_content :: "string \<Rightarrow> string \<Rightarrow> chunk list" where
  "SimpleRAG_split_content cont src = split_sections src (re_split [] cont)"

text \<open>
  \<open>load_documents\<close>: \<open>dir\<close> is the knowledge directory, \<open>None\<close> when it does not exist
  (it is created, and nothing is loaded), else the files in the order \<open>glob\<close> lists
  them, each with its name and its text (\<open>None\<close> for a file whose reading raises: it is
  skipped with a warning).
\<close>

fun load_files :: "(string \<times> string option) list \<Rightarrow> chunk list" where
  "load_files [] = []"
| "load_files ((name, text) # files) =
     (case text of
        Some cont \<Rightarrow> SimpleRAG_split_content cont name @ load_files files
      | None \<Rightarrow> load_files files)"

definition SimpleRAG_load_documents :: "(string \<times> string option) list option \<Rightarrow> chunk list" where
  "SimpleRAG_load_documents dir =
     (case dir of
        None \<Rightarrow> []
      | Some files \<Rightarrow>
          load_files (filter (\<lambda>f. endswith (fst f) ''.md'') files) @
          load_files (filter (\<lambda>f. endswith (fst f) ''.txt'') files))"

text \<open>The loop \<open>for doc in self.documents\<close> of \<open>retrieve\<close>.\<close>

fun score_documents :: "string set \<Rightarrow> chunk list \<Rightarrow> (nat \<times> chunk) list" where
  "score_documents query_keywords [] = []"
| "score_documents query_keywords (doc # docs) =
     (let overlap = card (query_keywords \<inter> doc_keywords doc)
      in if overlap > 0 then (overlap, doc) # score_documents query_keywords docs
         else score_documents query_keywords docs)"

text \<open>
  \<open>scored.sort(key=lambda x: x[0], reverse=True)\<close>. \<open>list.sort\<close> is stable; with
  \<open>reverse=True\<close> CPython reverses the list, sorts it in ascending order of the key and
  reverses the result.
\<close>

definition sort_reverse :: "(nat \<times> chunk) list \<Rightarrow> (nat \<times> chunk) list" where
  "sort_reverse scored = rev (sort_key fst (rev scored))"

text \<open>The slice \<open>xs[:k]\<close> for an integer \<open>k\<close>: a negative \<open>k\<close> counts from the end.\<close>

definition slice_to :: "'a list \<Rightarrow> int \<Rightarrow> 'a list" where
  "slice_to xs k = (if 0 \<le> k then take (nat k) xs else take (length xs - nat (- k)) xs)"

definition context_part :: "chunk \<Rightarrow> string" where
  "context_part doc = ''[From '' @ source doc @ '']'' @ [CHR 0x0A] @ take 500 (content doc)"

definition SimpleRAG_retrieve :: "chunk list \<Rightarrow> string \<Rightarrow> int \<Rightarrow> string" where
  "SimpleRAG_retrieve documents query top_k =
     (if documents = [] then []
      else
        (let query_keywords = set (findall_words (lower query));
             scored = sort_reverse (score_documents query_keywords documents);
             top_docs = slice_to scored top_k
         in if top_docs = [] then []
            else join [CHR 0x0A, CHR 0x0A] (map (\<lambda>(score, doc). context_part doc) top_docs)))"

section \<open>Latency profiler (utils.py, Profiler)\<close>

text \<open>
  \<open>times\<close> is a dictionary that \<open>report\<close> iterates, so it is an association list in
  insertion order (\<open>AList.update\<close> replaces the value of a key in place and appends a
  new key, as a Python \<open>dict\<close> does); \<open>_starts\<close> is only looked up. The reading of
  \<open>time.perf_counter()\<close> at a call is the parameter \<open>now\<close>, in seconds.
\<close>

record profiler =
  times :: "(string \<times> real) list"
  starts :: "string \<rightharpoonup> real"

definition Profiler_init :: profiler where
  "Profiler_init = \<lparr>times = [], starts = Map.empty\<rparr>"

definition Profiler_start :: "string \<Rightarrow> real \<Rightarrow> profiler \<Rightarrow> profiler" where
  "Profiler_start name now p = p\<lparr>starts := (starts p)(name \<mapsto> now)\<rparr>"

definition Profiler_stop :: "string \<Rightarrow> real \<Rightarrow> profiler \<Rightarrow> real \<times> profiler" where
  "Profiler_stop name now p =
     (let p' = (case starts p name of
                  Some t0 \<Rightarrow> p\<lparr>times := AList.update name ((now - t0) * 1000) (times p)\<rparr>
                | None \<Rightarrow> p)
      in (case map_of (times p') name of Some ms \<Rightarrow> ms | None \<Rightarrow> 0, p'))"

datatype grade = Good | Warning | Poor

definition grade_of :: "real \<Rightarrow> grade" where
  "grade_of ms = (if ms < 300 then Good else if ms < 600 then Warning else Poor)"

text \<open>The entries \<open>report\<close> logs after its header line: grade, name, milliseconds.\<close>

definition Profiler_report :: "profiler \<Rightarrow> (grade \<times> string \<times> real) list" where
  "Profiler_report p = map (\<lambda>(name, ms). (grade_of ms, name, ms)) (times p)"

definition Profiler_reset :: "profiler \<Rightarrow> profiler" where
  "Profiler_reset p = p\<lparr>times := [], starts := Map.empty\<rparr>"

section \<open>Settings (config.py, SettingsManager)\<close>

datatype json =
  JNull | JBool bool | JNumber real | JString string
  | JArray "json list" | JObject "(string \<times> json) list"

definition DEFAULT_SETTINGS :: "string \<rightharpoonup> json" where
  "DEFAULT_SETTINGS = map_of
     [(''temperature'', JNumber 0.7), (''topP'', JNumber 0.9), (''topK'', JNumber 40),
      (''maxTokens'', JNumber 256), (''repeatPenalty'', JNumber 1.1),
      (''contextWindow'', JNumber 4096), (''beamSize'', JNumber 1), (''vadFilter'', JBool True),
      (''vadThreshold'', JNumber 300), (''sampleRate'', JNumber 24000),
      (''voice'', JString ''en_0''), (''soundEffects'', JBool True),
      (''inputDevice'', JString []), (''outputDevice'', JString [])]"

text \<open>
  The settings file: it does not exist, or reading it raises (no JSON, or JSON that is
  no object), or it holds an object.
\<close>

datatype settings_file = Missing | Unreadable | Saved "string \<rightharpoonup> json"

record settings_manager =
  settings :: "string \<rightharpoonup> json"
  settings_file :: settings_file

definition SettingsManager_load :: "settings_file \<Rightarrow> (string \<rightharpoonup> json)" where
  "SettingsManager_load f =
     (case f of
        Saved saved \<Rightarrow> DEFAULT_SETTINGS ++ saved
      | _ \<Rightarrow> DEFAULT_SETTINGS)"

definition SettingsManager_init :: "settings_file \<Rightarrow> settings_manager" where
  "SettingsManager_init f = \<lparr>settings = SettingsManager_load f, settings_file = f\<rparr>"

text \<open>
  \<open>save\<close> dumps \<open>self._settings\<close> to the file; an exception of the write is caught and
  logged there, and the model follows the write that succeeds.
\<close>

definition SettingsManager_save :: "settings_manager \<Rightarrow> settings_manager" where
  "SettingsManager_save m = m\<lparr>settings_file := Saved (settings m)\<rparr>"

text \<open>The loop \<open>for key, value in updates.items()\<close> of \<open>update\<close>.\<close>

fun update_items :: "(string \<rightharpoonup> json) \<Rightarrow> (string \<times> json) list \<Rightarrow> (string \<rightharpoonup> json)" where
  "update_items s [] = s"
| "update_items s ((key, val) # items) =
     update_items (if DEFAULT_SETTINGS key \<noteq> None then s(key \<mapsto> val) else s) items"

definition SettingsManager_update :: "settings_manager \<Rightarrow> (string \<times> json) list \<Rightarrow> settings_manager" where
  "SettingsManager_update m updates =
     SettingsManager_save (m\<lparr>settings := update_items (settings m) updates\<rparr>)"

section \<open>Predicates and examples used to state the properties\<close>

text \<open>
  \<open>has_span s\<close>: the pattern \<open>\[.*?\]\<close> has a match somewhere in \<open>s\<close>, that is, some
  \<open>[\<close> is followed by a \<open>]\<close> with no line feed between them.
\<close>

fun has_span :: "string \<Rightarrow> bool" where
  "has_span [] = False"
| "has_span (c # cs) = ((c = CHR ''['' \<and> find_close cs \<noteq> None) \<or> has_span cs)"

text \<open>
  \<open>paired evs\<close>: the events are text chunks each followed by one audio payload.
  \<open>chunk_clean e\<close>: an event that is a text chunk holds no bracketed span.
\<close>

fun paired :: "'a event list \<Rightarrow> bool" where
  "paired [] = True"
| "paired (TextChunk t # AudioBytes w # es) = paired es"
| "paired es = False"

fun chunk_clean :: "'a event \<Rightarrow> bool" where
  "chunk_clean (TextChunk t) = (\<not> has_span t)"
| "chunk_clean e = True"

text \<open>
  The score \<open>retrieve\<close> gives a chunk for a query: the number of keywords that the
  query and the chunk share.
\<close>

definition overlap :: "string \<Rightarrow> chunk \<Rightarrow> nat" where
  "overlap query doc = card (set (findall_words (lower query)) \<inter> doc_keywords doc)"



text \<open>A small knowledge directory for the examples: one readable file, one unreadable.\<close>

definition example_kb :: string where
  "example_kb = ''# Coffee machine filter cleaning'' @ [CHR 0x0A] @
     ''## Tea kettle and coffee mugs'' @ [CHR 0x0A] @
     ''### The machine filter replacement'' @ [CHR 0x0A] @ ''## Too short''"

definition example_docs :: "chunk list" where
  "example_docs = SimpleRAG_load_documents (Some [(''kb.md'', Some example_kb), (''x.md'', None)])"

section \<open>Properties of the latency profiler\<close>

lemma report_entries: "map (\<lambda>(g, name, ms). (name, ms)) (Profiler_report p) = times p"
  unfolding Profiler_report_def
  by (induction "times p" arbitrary: p) (auto simp: map_idI case_prod_unfold)

lemma report_grade:
  assumes "(g, name, ms) \<in> set (Profiler_report p)"
  shows "(g = Good \<longleftrightarrow> ms < 300) \<and> (g = Warning \<longleftrightarrow> 300 \<le> ms \<and> ms < 600) \<and>
         (g = Poor \<longleftrightarrow> 600 \<le> ms)"
  using assms unfolding Profiler_report_def grade_of_def by (auto split: if_splits)

text \<open>
  Claim C5, as the code has it: \<open>report\<close> emits every recorded duration, in the order of
  recording, and grades a duration good exactly when it is under 300 ms, warning exactly
  when it is at least 300 ms and under 600 ms, and poor exactly when it is 600 ms or
  more. The upper bound of the warning range is exclusive.
\<close>

theorem report_grades:
  "map (\<lambda>(g, name, ms). (name, ms)) (Profiler_report p) = times p \<and>
   ((g, name, ms) \<in> set (Profiler_report p) \<longrightarrow>
      (g = Good \<longleftrightarrow> ms < 300) \<and> (g = Warning \<longleftrightarrow> 300 \<le> ms \<and> ms < 600) \<and>
      (g = Poor \<longleftrightarrow> 600 \<le> ms))"
  using report_entries report_grade by blast

theorem report_grades_witness:
  "Profiler_report \<lparr>times = [(''a'', 299), (''b'', 300), (''c'', 600)], starts = Map.empty\<rparr> =
     [(Good, ''a'', 299), (Warning, ''b'', 300), (Poor, ''c'', 600)] \<and>
   (Warning, ''b'', 300) \<in>
     set (Profiler_report \<lparr>times = [(''a'', 299), (''b'', 300), (''c'', 600)], starts = Map.empty\<rparr>) \<and>
   (300::real) \<le> 300 \<and> (300::real) < 600"
  using report_grades [of "\<lparr>times = [(''a'', 299), (''b'', 300), (''c'', 600)], starts = Map.empty\<rparr>"
      Warning "''b''" 300]
  by (simp add: Profiler_report_def grade_of_def)

text \<open>
  Claim C5 as stated fails at 600 ms: a timer started at 0.4 s and stopped at 1 s records
  600 ms, and \<open>report\<close> grades it poor, not warning.
\<close>

theorem report_600_counterexample:
  "Profiler_report (snd (Profiler_stop ''llm_ttft'' 1 (Profiler_start ''llm_ttft'' (2/5) Profiler_init)))
     = [(Poor, ''llm_ttft'', 600)] \<and>
   (Warning, ''llm_ttft'', 600) \<notin>
     set (Profiler_report (snd (Profiler_stop ''llm_ttft'' 1
            (Profiler_start ''llm_ttft'' (2/5) Profiler_init))))"
  by (simp add: Profiler_report_def grade_of_def Profiler_stop_def Profiler_start_def
      Profiler_init_def)

lemma stop_fresh: "fst (Profiler_stop name now Profiler_init) = 0"
  by (simp add: Profiler_stop_def Profiler_init_def)

lemma stop_reset: "fst (Profiler_stop name now (Profiler_reset p)) = 0"
  by (simp add: Profiler_stop_def Profiler_reset_def)

lemma stop_after_start:
  "Profiler_stop name t1 (Profiler_start name t0 p) =
     ((t1 - t0) * 1000,
      p\<lparr>starts := (starts p)(name \<mapsto> t0),
        times := AList.update name ((t1 - t0) * 1000) (times p)\<rparr>)"
  by (simp add: Profiler_stop_def Profiler_start_def update_conv')



lemma reset_clears:
  "times (Profiler_reset p) = [] \<and> starts (Profiler_reset p) = Map.empty \<and>
   Profiler_report (Profiler_reset p) = []"
  by (simp add: Profiler_reset_def Profiler_report_def)

text \<open>
  Claim C8: on a fresh or a reset profiler \<open>stop(name)\<close> returns 0; \<open>start(name)\<close> at
  the clock reading \<open>t0\<close> followed by \<open>stop(name)\<close> at a reading \<open>t1\<close> that is not
  earlier (the clock is monotonic) returns the elapsed milliseconds, which are not
  negative, and stores them under the name; \<open>reset()\<close> clears the starts and the
  durations, and the next \<open>report()\<close> emits no entry.
\<close>

theorem profiler_stop_start_reset:
  "fst (Profiler_stop name now Profiler_init) = 0 \<and>
   fst (Profiler_stop name now (Profiler_reset p)) = 0 \<and>
   (t0 \<le> t1 \<longrightarrow>
      fst (Profiler_stop name t1 (Profiler_start name t0 p)) = (t1 - t0) * 1000 \<and>
      0 \<le> fst (Profiler_stop name t1 (Profiler_start name t0 p)) \<and>
      map_of (times (snd (Profiler_stop name t1 (Profiler_start name t0 p)))) name
        = Some ((t1 - t0) * 1000)) \<and>
   times (Profiler_reset p) = [] \<and> starts (Profiler_reset p) = Map.empty \<and>
   Profiler_report (Profiler_reset p) = []"
  by (simp add: stop_fresh stop_reset stop_after_start reset_clears update_conv')

theorem profiler_stop_start_reset_witness:
  "(1::real) \<le> 3/2 \<and>
   Profiler_stop ''x'' (3/2) (Profiler_start ''x'' 1 Profiler_init) =
     (500, \<lparr>times = [(''x'', 500)], starts = [''x'' \<mapsto> 1]\<rparr>) \<and>
   fst (Profiler_stop ''x'' 2 (Profiler_reset
          (snd (Profiler_stop ''x'' (3/2) (Profiler_start ''x'' 1 Profiler_init))))) = 0 \<and>
   Profiler_report (Profiler_reset
          (snd (Profiler_stop ''x'' (3/2) (Profiler_start ''x'' 1 Profiler_init)))) = []"
  using profiler_stop_start_reset [of "''x''" 2
      "snd (Profiler_stop ''x'' (3/2) (Profiler_start ''x'' 1 Profiler_init))" 1 "3/2"]
  by (simp add: Profiler_stop_def Profiler_start_def Profiler_init_def)










section \<open>Properties of the settings manager\<close>

lemma update_items_unknown: "DEFAULT_SETTINGS k = None \<Longrightarrow> update_items s ups k = s k"
  by (induction s ups rule: update_items.induct) auto

lemma update_items_absent: "k \<notin> fst ` set ups \<Longrightarrow> update_items s ups k = s k"
  by (induction s ups rule: update_items.induct) auto

lemma update_items_known:
  "distinct (map fst ups) \<Longrightarrow> (k, v) \<in> set ups \<Longrightarrow> DEFAULT_SETTINGS k \<noteq> None \<Longrightarrow>
   update_items s ups k = Some v"
proof (induction s ups rule: update_items.induct)
  case (1 s)
  then show ?case by simp
next
  case (2 s key val items)
  show ?case
  proof (cases "(k, v) = (key, val)")
    case True
    with 2 have "k \<notin> fst ` set items" by auto
    with True 2 show ?thesis by (simp add: update_items_absent)
  next
    case False
    with 2 show ?thesis by auto
  qed
qed

lemma update_saves:
  "settings_file (SettingsManager_update m ups) = Saved (settings (SettingsManager_update m ups))"
  by (simp add: SettingsManager_update_def SettingsManager_save_def)

lemma update_settings:
  "settings (SettingsManager_update m ups) = update_items (settings m) ups"
  by (simp add: SettingsManager_update_def SettingsManager_save_def)

lemma load_saved:
  "settings (SettingsManager_init (Saved saved)) k =
     (case saved k of Some v \<Rightarrow> Some v | None \<Rightarrow> DEFAULT_SETTINGS k)"
  by (simp add: SettingsManager_init_def SettingsManager_load_def map_add_def split: option.splits)

lemma load_defaults:
  "settings (SettingsManager_init Missing) = DEFAULT_SETTINGS \<and>
   settings (SettingsManager_init Unreadable) = DEFAULT_SETTINGS"
  by (simp add: SettingsManager_init_def SettingsManager_load_def)

lemma default_foo: "DEFAULT_SETTINGS ''foo'' = None"
  by (simp add: DEFAULT_SETTINGS_def)

text \<open>
  Claim C4, as the code has it: \<open>update\<close> changes only keys of the default schema (a key
  outside the schema keeps its stored value or its absence, a key that the request does
  not name keeps its value, a recognized key of the request takes the requested value)
  and then writes the whole stored mapping to the file; a request \<open>{"foo": 1}\<close> leaves
  the stored settings as they are. Loading merges the persisted mapping over the
  defaults, so a key outside the schema that the persisted state holds stays in the
  stored settings, and \<open>update\<close> writes it back unchanged.
\<close>

theorem settings_unknown_keys:
  "(DEFAULT_SETTINGS k = None \<longrightarrow> settings (SettingsManager_update m ups) k = settings m k) \<and>
   (k \<notin> fst ` set ups \<longrightarrow> settings (SettingsManager_update m ups) k = settings m k) \<and>
   (distinct (map fst ups) \<and> (k, v) \<in> set ups \<and> DEFAULT_SETTINGS k \<noteq> None \<longrightarrow>
      settings (SettingsManager_update m ups) k = Some v) \<and>
   settings_file (SettingsManager_update m ups) = Saved (settings (SettingsManager_update m ups)) \<and>
   settings (SettingsManager_update m [(''foo'', JNumber 1)]) = settings m \<and>
   settings (SettingsManager_init (Saved saved)) k =
     (case saved k of Some w \<Rightarrow> Some w | None \<Rightarrow> DEFAULT_SETTINGS k) \<and>
   (DEFAULT_SETTINGS k = None \<longrightarrow>
      settings (SettingsManager_update (SettingsManager_init (Saved saved)) ups) k = saved k)"
proof -
  have "settings (SettingsManager_update m [(''foo'', JNumber 1)]) = settings m"
    by (simp add: update_settings default_foo)
  moreover have "DEFAULT_SETTINGS k = None \<longrightarrow>
      settings (SettingsManager_update (SettingsManager_init (Saved saved)) ups) k = saved k"
    by (simp add: update_settings update_items_unknown load_saved split: option.splits)
  ultimately show ?thesis
    using update_items_unknown update_items_absent update_items_known update_saves load_saved
    by (simp add: update_settings)
qed

theorem settings_unknown_keys_witness:
  "DEFAULT_SETTINGS ''foo'' = None \<and> ''foo'' \<notin> fst ` set [(''voice'', JString ''en_1'')] \<and>
   distinct (map fst [(''voice'', JString ''en_1''), (''bar'', JNull)]) \<and>
   settings (SettingsManager_update (SettingsManager_init (Saved [''foo'' \<mapsto> JNumber 1]))
      [(''voice'', JString ''en_1''), (''bar'', JNull)]) ''voice'' = Some (JString ''en_1'') \<and>
   settings (SettingsManager_update (SettingsManager_init (Saved [''foo'' \<mapsto> JNumber 1]))
      [(''voice'', JString ''en_1''), (''bar'', JNull)]) ''foo'' = Some (JNumber 1) \<and>
   settings (SettingsManager_update (SettingsManager_init (Saved [''foo'' \<mapsto> JNumber 1]))
      [(''voice'', JString ''en_1''), (''bar'', JNull)]) ''bar'' = None"
  using settings_unknown_keys [of "''foo''" "SettingsManager_init (Saved [''foo'' \<mapsto> JNumber 1])"
      "[(''voice'', JString ''en_1''), (''bar'', JNull)]" "JNumber 1" "[''foo'' \<mapsto> JNumber 1]"]
    settings_unknown_keys [of "''voice''" "SettingsManager_init (Saved [''foo'' \<mapsto> JNumber 1])"
      "[(''voice'', JString ''en_1''), (''bar'', JNull)]" "JString ''en_1''" "[''foo'' \<mapsto> JNumber 1]"]
    settings_unknown_keys [of "''bar''" "SettingsManager_init (Saved [''foo'' \<mapsto> JNumber 1])"
      "[(''voice'', JString ''en_1''), (''bar'', JNull)]" "JNull" "[''foo'' \<mapsto> JNumber 1]"]
  by (simp add: DEFAULT_SETTINGS_def)

text \<open>
  Claim C4 as stated fails on the write-back: after loading the persisted state
  \<open>{"foo": 1}\<close>, the mapping that the next save writes (here through an empty update)
  still holds \<open>foo\<close>, which is no key of the default schema.
\<close>

theorem settings_write_back_counterexample:
  "(case settings_file (SettingsManager_update (SettingsManager_init (Saved [''foo'' \<mapsto> JNumber 1])) [])
    of Saved written \<Rightarrow> written ''foo'' = Some (JNumber 1) | _ \<Rightarrow> False) \<and>
   DEFAULT_SETTINGS ''foo'' = None"
  by (simp add: SettingsManager_update_def SettingsManager_save_def SettingsManager_init_def
      SettingsManager_load_def DEFAULT_SETTINGS_def)

section \<open>Properties of the retrieval scorer\<close>

lemma split_sections_contents:
  "map content (split_sections src secs) = filter (\<lambda>s. 20 < length s) (map strip secs)"
  by (induction secs) (auto simp: Let_def)

lemma split_sections_chunk:
  "d \<in> set (split_sections src secs) \<Longrightarrow>
   20 < length (content d) \<and> source d = src \<and>
   doc_keywords d = set (findall_words (lower (content d)))"
  by (induction secs) (auto simp: Let_def split: if_splits)

lemma split_content_contents:
  "map content (SimpleRAG_split_content c src) =
     filter (\<lambda>s. 20 < length s) (map strip (re_split [] c))"
  by (simp add: SimpleRAG_split_content_def split_sections_contents)

lemma split_content_retained:
  assumes "s \<in> set (re_split [] c)"
  shows "strip s \<in> content ` set (SimpleRAG_split_content c src) \<longleftrightarrow> 20 < length (strip s)"
proof -
  have "content ` set (SimpleRAG_split_content c src) =
        set (filter (\<lambda>s. 20 < length s) (map strip (re_split [] c)))"
    using split_content_contents [of c src] by (metis set_map)
  with assms show ?thesis by auto
qed

lemma re_split_nonempty: "re_split cur s \<noteq> []"
  by (induction s arbitrary: cur) auto

lemma join_Cons: "ps \<noteq> [] \<Longrightarrow> join sep (p # ps) = p @ sep @ join sep ps"
  by (cases ps) auto

lemma re_split_join: "join [CHR 0x0A] (re_split cur s) = cur @ s"
  by (induction s arbitrary: cur) (auto simp: join_Cons re_split_nonempty)

lemma score_documents_eq:
  "score_documents qk docs =
     map (\<lambda>d. (card (qk \<inter> doc_keywords d), d))
       (filter (\<lambda>d. 0 < card (qk \<inter> doc_keywords d)) docs)"
  by (induction docs) (auto simp: Let_def)

lemma score_documents_member:
  assumes "(n, d) \<in> set (score_documents qk docs)"
  shows "d \<in> set docs \<and> n = card (qk \<inter> doc_keywords d) \<and> 0 < n \<and> doc_keywords d \<noteq> {}"
proof -
  from assms have a: "d \<in> set docs" "n = card (qk \<inter> doc_keywords d)" "0 < n"
    by (auto simp: score_documents_eq)
  then have "qk \<inter> doc_keywords d \<noteq> {}" by auto
  with a show ?thesis by auto
qed

lemma sort_reverse_mset: "mset (sort_reverse xs) = mset xs"
  by (simp add: sort_reverse_def)

lemma slice_to_nonneg: "0 \<le> k \<Longrightarrow> slice_to xs k = take (nat k) xs"
  by (simp add: slice_to_def)

lemma retrieve_eq:
  assumes "0 \<le> top_k"
  shows "SimpleRAG_retrieve docs q top_k =
     join [CHR 0x0A, CHR 0x0A] (map context_part (take (nat top_k)
        (map snd (sort_reverse (score_documents (set (findall_words (lower q))) docs)))))"
proof (cases "docs = []")
  case True
  then show ?thesis by (simp add: SimpleRAG_retrieve_def sort_reverse_def)
next
  case False
  have m: "map (\<lambda>(score, doc). context_part doc) xs = map context_part (map snd xs)" for xs :: "(nat \<times> chunk) list"
    by (induction xs) auto
  show ?thesis
    using False assms
    by (auto simp: SimpleRAG_retrieve_def Let_def slice_to_nonneg m take_map)
qed


lemma sort_reverse_sorted: "sorted_wrt (\<lambda>a b. fst b \<le> fst a) (sort_reverse xs)"
proof -
  have "sorted (map fst (sort_key fst (rev xs)))" by (rule sorted_sort_key)
  then have "sorted_wrt (\<lambda>a b. fst a \<le> fst b) (sort_key fst (rev xs))"
    by (simp add: sorted_map)
  then show ?thesis by (simp add: sort_reverse_def sorted_wrt_rev)
qed

lemma sort_reverse_stable:
  "filter (\<lambda>x. fst x = k) (sort_reverse xs) = filter (\<lambda>x. fst x = k) xs"
proof -
  have "filter (\<lambda>x. fst x = k) (sort_key fst (rev xs)) = filter (\<lambda>x. fst x = k) (rev xs)"
    by (rule sort_key_stable)
  then show ?thesis by (simp add: sort_reverse_def rev_filter [symmetric])
qed


lemma ranked_key:
  assumes "x \<in> set (sort_reverse (score_documents (set (findall_words (lower q))) docs))"
  shows "overlap q (snd x) = fst x \<and> 0 < fst x \<and> snd x \<in> set docs"
proof -
  let ?S = "score_documents (set (findall_words (lower q))) docs"
  have "set (sort_reverse ?S) = set ?S"
    using sort_reverse_mset [of ?S] by (rule mset_eq_setD)
  with assms show ?thesis by (auto simp: score_documents_eq overlap_def)
qed

lemma ranked_sorted:
  "sorted_wrt (\<lambda>a b. overlap q b \<le> overlap q a)
     (map snd (sort_reverse (score_documents (set (findall_words (lower q))) docs)))"
proof -
  let ?S = "score_documents (set (findall_words (lower q))) docs"
  have "sorted_wrt (\<lambda>a b. overlap q (snd b) \<le> overlap q (snd a)) (sort_reverse ?S)"
  proof (rule sorted_wrt_mono_rel [OF _ sort_reverse_sorted])
    fix x y
    assume "x \<in> set (sort_reverse ?S)" "y \<in> set (sort_reverse ?S)" "fst y \<le> fst x"
    then show "overlap q (snd y) \<le> overlap q (snd x)" by (simp add: ranked_key)
  qed
  then show ?thesis by (simp add: sorted_wrt_map)
qed

lemma ranked_stable:
  "filter (\<lambda>d. overlap q d = n)
     (map snd (sort_reverse (score_documents (set (findall_words (lower q))) docs))) =
   (if 0 < n then filter (\<lambda>d. overlap q d = n) docs else [])"
proof -
  let ?S = "score_documents (set (findall_words (lower q))) docs"
  have S: "?S = map (\<lambda>d. (overlap q d, d)) (filter (\<lambda>d. 0 < overlap q d) docs)"
    by (simp add: score_documents_eq overlap_def)
  have "filter (\<lambda>d. overlap q d = n) (map snd (sort_reverse ?S)) =
        map snd (filter (\<lambda>x. overlap q (snd x) = n) (sort_reverse ?S))"
    by (simp add: filter_map comp_def)
  also have "filter (\<lambda>x. overlap q (snd x) = n) (sort_reverse ?S) =
        filter (\<lambda>x. fst x = n) (sort_reverse ?S)"
    by (rule filter_cong) (simp_all add: ranked_key)
  also have "\<dots> = filter (\<lambda>x. fst x = n) ?S" by (rule sort_reverse_stable)
  also have "map snd \<dots> = filter (\<lambda>d. overlap q d = n) (filter (\<lambda>d. 0 < overlap q d) docs)"
    unfolding S by (simp add: filter_map comp_def)
  also have "\<dots> = (if 0 < n then filter (\<lambda>d. overlap q d = n) docs else [])"
    by (auto intro: filter_cong simp: filter_empty_conv)
  finally show ?thesis .
qed

lemma ranked_mset:
  "mset (map snd (sort_reverse (score_documents (set (findall_words (lower q))) docs))) =
   mset (filter (\<lambda>d. 0 < overlap q d) docs)"
proof -
  let ?S = "score_documents (set (findall_words (lower q))) docs"
  have "mset (map snd (sort_reverse ?S)) = image_mset snd (mset (sort_reverse ?S))" by simp
  also have "\<dots> = image_mset snd (mset ?S)" by (simp only: sort_reverse_mset)
  also have "\<dots> = mset (filter (\<lambda>d. 0 < overlap q d) docs)"
    by (simp add: score_documents_eq overlap_def image_mset.compositionality comp_def
        flip: mset_map mset_filter)
  finally show ?thesis .
qed

lemma retrieve_no_overlap:
  assumes "\<forall>d \<in> set docs. overlap q d = 0"
  shows "SimpleRAG_retrieve docs q top_k = []"
proof -
  from assms have "score_documents (set (findall_words (lower q))) docs = []"
    by (simp add: score_documents_eq overlap_def filter_empty_conv)
  then show ?thesis
    by (simp add: SimpleRAG_retrieve_def sort_reverse_def slice_to_def)
qed

lemma retrieve_three:
  assumes "mset docs = {#d3, d1, d2#}" "overlap q d3 = 3" "overlap q d1 = 1" "overlap q d2 = 2"
  shows "SimpleRAG_retrieve docs q 2 = context_part d3 @ [CHR 0x0A, CHR 0x0A] @ context_part d2"
proof -
  let ?S = "score_documents (set (findall_words (lower q))) docs"
  let ?xs = "sort_key fst (rev ?S)"
  let ?ys = "[(1, d1), (2, d2), (3, d3)] :: (nat \<times> chunk) list"
  have "mset docs = mset [d3, d1, d2]" using assms(1) by simp
  then have "set docs = set [d3, d1, d2]" by (rule mset_eq_setD)
  then have set_docs: "set docs = {d3, d1, d2}" by simp
  have "filter (\<lambda>d. 0 < overlap q d) docs = docs"
    using set_docs assms by (auto simp: filter_id_conv)
  then have S: "?S = map (\<lambda>d. (overlap q d, d)) docs"
    by (simp add: score_documents_eq overlap_def)
  have "mset ?S = image_mset (\<lambda>d. (overlap q d, d)) (mset docs)"
    unfolding S by simp
  then have mS: "mset ?S = {#(3, d3), (1, d1), (2, d2)#}"
    unfolding assms(1) by (simp add: assms(2-4))
  then have mxs: "mset ?xs = mset ?ys" by simp
  then have sxs: "set ?xs = set ?ys" by (rule mset_eq_setD)
  have "mset (map fst ?xs) = mset (map fst ?ys)"
    using mxs by (metis mset_map)
  then have "distinct (map fst ?xs) = distinct (map fst ?ys)"
    by (rule mset_eq_imp_distinct_iff)
  then have "distinct (map fst ?xs)" by simp
  moreover have "sorted (map fst ?xs)" by (rule sorted_sort_key)
  moreover have "inj_on fst (set ?xs \<union> set ?ys)" unfolding sxs by (auto simp: inj_on_def)
  ultimately have "?xs = ?ys"
    using sxs by (intro map_sorted_distinct_set_unique [of fst]) auto
  then have "sort_reverse ?S = [(3, d3), (2, d2), (1, d1)]" by (simp add: sort_reverse_def)
  then show ?thesis by (simp add: retrieve_eq)
qed


lemma word_runs_chars:
  assumes "w \<in> set (word_runs cur s)"
  shows "set w \<subseteq> set cur \<union> set s \<and> (list_all is_word cur \<longrightarrow> list_all is_word w)"
  using assms
proof (induction s arbitrary: cur)
  case Nil
  then show ?case by (auto split: if_splits)
next
  case (Cons c cs)
  show ?case
  proof (cases "is_word c")
    case True
    with Cons.prems have "w \<in> set (word_runs (cur @ [c]) cs)" by simp
    from Cons.IH [OF this] True show ?thesis by auto
  next
    case False
    with Cons.prems consider "w = cur" | "w \<in> set (word_runs [] cs)" by (auto split: if_splits)
    then show ?thesis
    proof cases
      case 1
      then show ?thesis by auto
    next
      case 2
      from Cons.IH [OF this] show ?thesis by auto
    qed
  qed
qed

lemma lower_char_idem: "lower_char (lower_char c) = lower_char c"
  by (auto simp: lower_char_def Let_def)

lemma findall_words_lower:
  assumes "w \<in> set (findall_words (lower q))"
  shows "3 \<le> length w \<and> (\<forall>c \<in> set w. is_word c \<and> lower_char c = c)"
proof -
  from assms have l: "3 \<le> length w" and r: "w \<in> set (word_runs [] (lower q))"
    by (auto simp: findall_words_def)
  from word_runs_chars [OF r] have "set w \<subseteq> set (lower q)" "list_all is_word w" by auto
  then show ?thesis using l by (auto simp: lower_def list_all_iff lower_char_idem)
qed

lemma example_docs_length: "length example_docs = 3"
  by code_simp

lemma example_docs_mset:
  "mset example_docs = {#example_docs ! 0, example_docs ! 1, example_docs ! 2#}"
proof -
  have "example_docs = [example_docs ! 0, example_docs ! 1, example_docs ! 2]"
    using example_docs_length
    by (intro nth_equalityI) (auto simp: nth_Cons' numeral_3_eq_3 numeral_2_eq_2 less_Suc_eq)
  then have "mset example_docs = mset [example_docs ! 0, example_docs ! 1, example_docs ! 2]"
    by simp
  then show ?thesis by simp
qed

text \<open>
  Claim C2: for a top_k that is not negative, \<open>retrieve\<close> returns the parts of the
  first top_k chunks of a ranking, each part the source file name in \<open>[From ...]\<close>, a
  line feed and the first 500 characters of the chunk, the parts joined by a blank
  line. The ranking holds exactly the chunks whose overlap with the query is positive,
  in descending order of overlap, and chunks of equal overlap stand in load order. The
  overlap is the number of keywords shared by the query and the chunk, a keyword of the
  query being a run of at least three word characters of the lower-cased query. With
  no chunk loaded or no chunk of positive overlap the result is the empty string, and
  three chunks of overlaps 3, 1 and 2, loaded in any order, give with top_k = 2 the
  overlap-3 chunk followed by the overlap-2 chunk.
\<close>

theorem retrieve_ranked:
  "(0 \<le> top_k \<longrightarrow>
     (\<exists>ranked.
        SimpleRAG_retrieve docs q top_k =
          join [CHR 0x0A, CHR 0x0A] (map context_part (take (nat top_k) ranked)) \<and>
        mset ranked = mset (filter (\<lambda>d. 0 < overlap q d) docs) \<and>
        sorted_wrt (\<lambda>a b. overlap q b \<le> overlap q a) ranked \<and>
        (\<forall>n. filter (\<lambda>d. overlap q d = n) ranked =
              (if 0 < n then filter (\<lambda>d. overlap q d = n) docs else [])))) \<and>
   ((\<forall>d \<in> set docs. overlap q d = 0) \<longrightarrow> SimpleRAG_retrieve docs q top_k = []) \<and>
   SimpleRAG_retrieve [] q top_k = [] \<and>
   (mset docs = {#d3, d1, d2#} \<and> overlap q d3 = 3 \<and> overlap q d1 = 1 \<and> overlap q d2 = 2 \<longrightarrow>
      SimpleRAG_retrieve docs q 2 = context_part d3 @ [CHR 0x0A, CHR 0x0A] @ context_part d2) \<and>
   context_part d = ''[From '' @ source d @ '']'' @ [CHR 0x0A] @ take 500 (content d) \<and>
   overlap q d = card (set (findall_words (lower q)) \<inter> doc_keywords d) \<and>
   (w \<in> set (findall_words (lower q)) \<longrightarrow>
      3 \<le> length w \<and> (\<forall>c \<in> set w. is_word c \<and> lower_char c = c))"
proof -
  let ?ranked = "map snd (sort_reverse (score_documents (set (findall_words (lower q))) docs))"
  have "0 \<le> top_k \<longrightarrow>
     (\<exists>ranked.
        SimpleRAG_retrieve docs q top_k =
          join [CHR 0x0A, CHR 0x0A] (map context_part (take (nat top_k) ranked)) \<and>
        mset ranked = mset (filter (\<lambda>d. 0 < overlap q d) docs) \<and>
        sorted_wrt (\<lambda>a b. overlap q b \<le> overlap q a) ranked \<and>
        (\<forall>n. filter (\<lambda>d. overlap q d = n) ranked =
              (if 0 < n then filter (\<lambda>d. overlap q d = n) docs else [])))"
  proof
    assume k: "0 \<le> top_k"
    have "SimpleRAG_retrieve docs q top_k =
          join [CHR 0x0A, CHR 0x0A] (map context_part (take (nat top_k) ?ranked)) \<and>
        mset ?ranked = mset (filter (\<lambda>d. 0 < overlap q d) docs) \<and>
        sorted_wrt (\<lambda>a b. overlap q b \<le> overlap q a) ?ranked \<and>
        (\<forall>n. filter (\<lambda>d. overlap q d = n) ?ranked =
              (if 0 < n then filter (\<lambda>d. overlap q d = n) docs else []))"
      using retrieve_eq [OF k] ranked_mset ranked_sorted ranked_stable by blast
    then show "\<exists>ranked.
        SimpleRAG_retrieve docs q top_k =
          join [CHR 0x0A, CHR 0x0A] (map context_part (take (nat top_k) ranked)) \<and>
        mset ranked = mset (filter (\<lambda>d. 0 < overlap q d) docs) \<and>
        sorted_wrt (\<lambda>a b. overlap q b \<le> overlap q a) ranked \<and>
        (\<forall>n. filter (\<lambda>d. overlap q d = n) ranked =
              (if 0 < n then filter (\<lambda>d. overlap q d = n) docs else []))"
      by (rule exI)
  qed
  moreover have "(\<forall>d \<in> set docs. overlap q d = 0) \<longrightarrow> SimpleRAG_retrieve docs q top_k = []"
    using retrieve_no_overlap by blast
  moreover have "SimpleRAG_retrieve [] q top_k = []"
    by (simp add: SimpleRAG_retrieve_def)
  moreover have "mset docs = {#d3, d1, d2#} \<and> overlap q d3 = 3 \<and> overlap q d1 = 1 \<and>
      overlap q d2 = 2 \<longrightarrow>
      SimpleRAG_retrieve docs q 2 = context_part d3 @ [CHR 0x0A, CHR 0x0A] @ context_part d2"
    using retrieve_three by blast
  moreover have "context_part d = ''[From '' @ source d @ '']'' @ [CHR 0x0A] @ take 500 (content d)"
    by (simp add: context_part_def)
  moreover have "overlap q d = card (set (findall_words (lower q)) \<inter> doc_keywords d)"
    by (simp add: overlap_def)
  moreover have "w \<in> set (findall_words (lower q)) \<longrightarrow>
      3 \<le> length w \<and> (\<forall>c \<in> set w. is_word c \<and> lower_char c = c)"
    using findall_words_lower by blast
  ultimately show ?thesis by (intro conjI)
qed

theorem retrieve_ranked_witness:
  "(0::int) \<le> 2 \<and>
   map content example_docs =
     [''# Coffee machine filter cleaning'', ''## Tea kettle and coffee mugs'',
      ''### The machine filter replacement''] \<and>
   overlap ''Coffee machine filter?'' (example_docs ! 0) = 3 \<and>
   overlap ''Coffee machine filter?'' (example_docs ! 1) = 1 \<and>
   overlap ''Coffee machine filter?'' (example_docs ! 2) = 2 \<and>
   SimpleRAG_retrieve example_docs ''Coffee machine filter?'' 2 =
     context_part (example_docs ! 0) @ [CHR 0x0A, CHR 0x0A] @ context_part (example_docs ! 2) \<and>
   SimpleRAG_retrieve example_docs ''Coffee machine filter?'' 2 =
     ''[From kb.md]'' @ [CHR 0x0A] @ ''# Coffee machine filter cleaning'' @ [CHR 0x0A, CHR 0x0A] @
     ''[From kb.md]'' @ [CHR 0x0A] @ ''### The machine filter replacement''"
proof -
  have c: "map content example_docs =
     [''# Coffee machine filter cleaning'', ''## Tea kettle and coffee mugs'',
      ''### The machine filter replacement'']"
    by code_simp
  have o3: "overlap ''Coffee machine filter?'' (example_docs ! 0) = 3" by code_simp
  have o1: "overlap ''Coffee machine filter?'' (example_docs ! 1) = 1" by code_simp
  have o2: "overlap ''Coffee machine filter?'' (example_docs ! 2) = 2" by code_simp
  have r: "SimpleRAG_retrieve example_docs ''Coffee machine filter?'' 2 =
     ''[From kb.md]'' @ [CHR 0x0A] @ ''# Coffee machine filter cleaning'' @ [CHR 0x0A, CHR 0x0A] @
     ''[From kb.md]'' @ [CHR 0x0A] @ ''### The machine filter replacement''"
    by code_simp
  have "SimpleRAG_retrieve example_docs ''Coffee machine filter?'' 2 =
     context_part (example_docs ! 0) @ [CHR 0x0A, CHR 0x0A] @ context_part (example_docs ! 2)"
    using retrieve_ranked [of 2 example_docs "''Coffee machine filter?''"
        "example_docs ! 0" "example_docs ! 1" "example_docs ! 2"]
      example_docs_mset o3 o1 o2
    by blast
  with c o3 o1 o2 r show ?thesis by simp
qed

lemma ranked_set:
  "set (map snd (sort_reverse (score_documents (set (findall_words (lower q))) docs))) =
   {d \<in> set docs. 0 < overlap q d}"
proof -
  have "set_mset (mset (map snd (sort_reverse
          (score_documents (set (findall_words (lower q))) docs)))) =
        set_mset (mset (filter (\<lambda>d. 0 < overlap q d) docs))"
    by (simp only: ranked_mset)
  then show ?thesis by simp
qed

text \<open>
  Claim C3, as the code has it: the chunks of a document are its sections (the pieces
  between heading boundaries, which joined by line feeds give the document back),
  trimmed, that are longer than 20 characters, in order; a trimmed section is the
  content of a chunk exactly when its length exceeds 20. \<open>retrieve\<close> builds its result,
  for a top_k that is not negative, from the first top_k chunks of a ranking that
  holds exactly the retained chunks sharing a keyword with the query: a section of 20
  characters or fewer is in no chunk and in no result, and a retained section is in
  the ranking only for a query that shares a keyword with it.
\<close>

theorem split_content_min_length:
  "map content (SimpleRAG_split_content c src) =
     filter (\<lambda>s. 20 < length s) (map strip (re_split [] c)) \<and>
   join [CHR 0x0A] (re_split [] c) = c \<and>
   (s \<in> set (re_split [] c) \<longrightarrow>
      (strip s \<in> content ` set (SimpleRAG_split_content c src) \<longleftrightarrow> 20 < length (strip s))) \<and>
   (d \<in> set (SimpleRAG_split_content c src) \<longrightarrow> 20 < length (content d)) \<and>
   (0 \<le> top_k \<longrightarrow>
      (\<exists>ranked.
         SimpleRAG_retrieve (SimpleRAG_split_content c src) q top_k =
           join [CHR 0x0A, CHR 0x0A] (map context_part (take (nat top_k) ranked)) \<and>
         set ranked = {d \<in> set (SimpleRAG_split_content c src). 0 < overlap q d} \<and>
         (\<forall>d \<in> set ranked. 20 < length (content d))))"
proof -
  have len: "d \<in> set (SimpleRAG_split_content c src) \<longrightarrow> 20 < length (content d)" for d
    using split_sections_chunk by (auto simp: SimpleRAG_split_content_def)
  let ?docs = "SimpleRAG_split_content c src"
  let ?ranked = "map snd (sort_reverse (score_documents (set (findall_words (lower q))) ?docs))"
  have "0 \<le> top_k \<longrightarrow>
      (\<exists>ranked.
         SimpleRAG_retrieve ?docs q top_k =
           join [CHR 0x0A, CHR 0x0A] (map context_part (take (nat top_k) ranked)) \<and>
         set ranked = {d \<in> set ?docs. 0 < overlap q d} \<and>
         (\<forall>d \<in> set ranked. 20 < length (content d)))"
  proof
    assume k: "0 \<le> top_k"
    have "SimpleRAG_retrieve ?docs q top_k =
           join [CHR 0x0A, CHR 0x0A] (map context_part (take (nat top_k) ?ranked)) \<and>
         set ?ranked = {d \<in> set ?docs. 0 < overlap q d} \<and>
         (\<forall>d \<in> set ?ranked. 20 < length (content d))"
      using retrieve_eq [OF k, of ?docs q] ranked_set [of q ?docs] len by auto
    then show "\<exists>ranked.
         SimpleRAG_retrieve ?docs q top_k =
           join [CHR 0x0A, CHR 0x0A] (map context_part (take (nat top_k) ranked)) \<and>
         set ranked = {d \<in> set ?docs. 0 < overlap q d} \<and>
         (\<forall>d \<in> set ranked. 20 < length (content d))"
      by (rule exI)
  qed
  then show ?thesis
    using split_content_contents [of c src] split_content_retained [of s c src]
      re_split_join [of "[]" c] len [of d]
    by simp
qed

theorem split_content_min_length_witness:
  "re_split [] (''# Title 1234567890123'' @ [CHR 0x0A] @ ''## Title 12345678901'') =
     [''# Title 1234567890123'', ''## Title 12345678901''] \<and>
   length (strip ''# Title 1234567890123'') = 21 \<and>
   length (strip ''## Title 12345678901'') = 20 \<and>
   ''# Title 1234567890123'' \<in> content ` set (SimpleRAG_split_content
       (''# Title 1234567890123'' @ [CHR 0x0A] @ ''## Title 12345678901'') ''a.md'') \<and>
   map content (SimpleRAG_split_content
       (''# Title 1234567890123'' @ [CHR 0x0A] @ ''## Title 12345678901'') ''a.md'') =
     [''# Title 1234567890123''] \<and>
   (0::int) \<le> 2 \<and>
   SimpleRAG_retrieve (SimpleRAG_split_content
       (''# Title 1234567890123'' @ [CHR 0x0A] @ ''## Title 12345678901'') ''a.md'') ''title'' 2 =
     ''[From a.md]'' @ [CHR 0x0A] @ ''# Title 1234567890123'' \<and>
   (\<exists>ranked. SimpleRAG_retrieve (SimpleRAG_split_content
       (''# Title 1234567890123'' @ [CHR 0x0A] @ ''## Title 12345678901'') ''a.md'') ''title'' 2 =
       join [CHR 0x0A, CHR 0x0A] (map context_part (take 2 ranked)) \<and>
       list_all (\<lambda>d. 20 < length (content d)) ranked)"
proof -
  let ?c = "''# Title 1234567890123'' @ [CHR 0x0A] @ ''## Title 12345678901''"
  have r: "re_split [] ?c = [''# Title 1234567890123'', ''## Title 12345678901'']"
    by code_simp
  have s1: "strip ''# Title 1234567890123'' = ''# Title 1234567890123''" by code_simp
  have s2: "strip ''## Title 12345678901'' = ''## Title 12345678901''" by code_simp
  have q: "SimpleRAG_retrieve (SimpleRAG_split_content ?c ''a.md'') ''title'' 2 =
     ''[From a.md]'' @ [CHR 0x0A] @ ''# Title 1234567890123''"
    by code_simp
  have m: "''# Title 1234567890123'' \<in> set (re_split [] ?c)" unfolding r by simp
  have l: "20 < length (strip ''# Title 1234567890123'')" unfolding s1 by simp
  note t = split_content_min_length [of ?c "''a.md''" "''# Title 1234567890123''" d 2 "''title''"]
  from t m l
  have 1: "strip ''# Title 1234567890123'' \<in> content ` set (SimpleRAG_split_content ?c ''a.md'')"
    and 2: "map content (SimpleRAG_split_content ?c ''a.md'') =
          filter (\<lambda>s. 20 < length s) (map strip (re_split [] ?c))"
    by blast+
  from t have "\<exists>ranked. SimpleRAG_retrieve (SimpleRAG_split_content ?c ''a.md'') ''title'' 2 =
       join [CHR 0x0A, CHR 0x0A] (map context_part (take (nat 2) ranked)) \<and>
       set ranked = {d \<in> set (SimpleRAG_split_content ?c ''a.md''). 0 < overlap ''title'' d} \<and>
       (\<forall>d \<in> set ranked. 20 < length (content d))"
    by simp
  then have 3: "\<exists>ranked. SimpleRAG_retrieve (SimpleRAG_split_content ?c ''a.md'') ''title'' 2 =
       join [CHR 0x0A, CHR 0x0A] (map context_part (take 2 ranked)) \<and>
       list_all (\<lambda>d. 20 < length (content d)) ranked"
    by (auto simp: list_all_iff)
  from 1 2 3 q show ?thesis unfolding r by (simp add: s1 s2)
qed

text \<open>
  Claim C3 as stated fails at length 20: the document \<open># Title 123456789012\<close> is one
  trimmed section of exactly 20 characters, and it yields no chunk; a query for its
  words retrieves nothing.
\<close>

theorem split_content_length_20_counterexample:
  "length (strip ''# Title 123456789012'') = 20 \<and>
   SimpleRAG_split_content ''# Title 123456789012'' ''a.md'' = [] \<and>
   SimpleRAG_retrieve (SimpleRAG_load_documents (Some [(''a.md'', Some ''# Title 123456789012'')]))
     ''title'' 2 = []"
  by code_simp

text \<open>
  Claim C6, as the code has it: a chunk produced at load time is a trimmed section
  longer than 20 characters that carries the keywords of its lower-cased content, a
  set that can be empty. \<open>retrieve\<close> scores every loaded chunk, and only chunks that
  share a keyword with the query enter the scored list: every scored chunk has a keyword
  set that is not empty, a chunk with no keyword has overlap 0 with every query, and a
  collection of such chunks retrieves the empty string.
\<close>

theorem chunk_keywords:
  "(d \<in> set (SimpleRAG_split_content c src) \<longrightarrow>
      20 < length (content d) \<and> source d = src \<and>
      doc_keywords d = set (findall_words (lower (content d)))) \<and>
   ((n, d) \<in> set (score_documents qk docs) \<longrightarrow>
      d \<in> set docs \<and> n = card (qk \<inter> doc_keywords d) \<and> 0 < n \<and> doc_keywords d \<noteq> {}) \<and>
   (doc_keywords d = {} \<longrightarrow> overlap q d = 0) \<and>
   ((\<forall>d \<in> set docs. doc_keywords d = {}) \<longrightarrow> SimpleRAG_retrieve docs q top_k = [])"
proof -
  have "d \<in> set (SimpleRAG_split_content c src) \<longrightarrow>
      20 < length (content d) \<and> source d = src \<and>
      doc_keywords d = set (findall_words (lower (content d)))"
    using split_sections_chunk by (auto simp: SimpleRAG_split_content_def)
  moreover have "(n, d) \<in> set (score_documents qk docs) \<longrightarrow>
      d \<in> set docs \<and> n = card (qk \<inter> doc_keywords d) \<and> 0 < n \<and> doc_keywords d \<noteq> {}"
    using score_documents_member by blast
  moreover have "doc_keywords d = {} \<longrightarrow> overlap q d = 0"
    by (simp add: overlap_def)
  moreover have "(\<forall>d \<in> set docs. doc_keywords d = {}) \<longrightarrow> SimpleRAG_retrieve docs q top_k = []"
    using retrieve_no_overlap [of docs q top_k] by (simp add: overlap_def)
  ultimately show ?thesis by (intro conjI)
qed

theorem chunk_keywords_witness:
  "map content (SimpleRAG_split_content ''## Q & A: it is ok to go'' ''a.md'') =
     [''## Q & A: it is ok to go''] \<and>
   doc_keywords (hd (SimpleRAG_split_content ''## Q & A: it is ok to go'' ''a.md'')) = {} \<and>
   overlap ''is it ok to go?'' (hd (SimpleRAG_split_content ''## Q & A: it is ok to go'' ''a.md'')) = 0 \<and>
   SimpleRAG_retrieve (SimpleRAG_split_content ''## Q & A: it is ok to go'' ''a.md'')
     ''is it ok to go?'' 2 = [] \<and>
   (3, example_docs ! 0) \<in>
     set (score_documents (set (findall_words (lower ''Coffee machine filter?''))) example_docs) \<and>
   doc_keywords (example_docs ! 0) \<noteq> {} \<and>
   20 < length (content (example_docs ! 0))"
proof -
  let ?docs = "SimpleRAG_split_content ''## Q & A: it is ok to go'' ''a.md''"
  have c: "map content ?docs = [''## Q & A: it is ok to go'']" by code_simp
  have k: "doc_keywords (hd ?docs) = {}" by code_simp
  have ks: "\<forall>d \<in> set ?docs. doc_keywords d = {}" by code_simp
  have m: "(3, example_docs ! 0) \<in>
     set (score_documents (set (findall_words (lower ''Coffee machine filter?''))) example_docs)"
    by code_simp
  have e: "example_docs ! 0 \<in> set (SimpleRAG_split_content example_kb ''kb.md'')"
    by code_simp
  from chunk_keywords [of "hd ?docs" "''## Q & A: it is ok to go''" "''a.md''" 0 "{}" ?docs
      "''is it ok to go?''" 2] k ks
  have 1: "overlap ''is it ok to go?'' (hd ?docs) = 0"
    and 2: "SimpleRAG_retrieve ?docs ''is it ok to go?'' 2 = []"
    by blast+
  from chunk_keywords [of "example_docs ! 0" example_kb "''kb.md''" 3
      "set (findall_words (lower ''Coffee machine filter?''))" example_docs "''q''" 2] m e
  have 3: "doc_keywords (example_docs ! 0) \<noteq> {}" and 4: "20 < length (content (example_docs ! 0))"
    by blast+
  from c k 1 2 m 3 4 show ?thesis by simp
qed

text \<open>
  Claim C6 as stated fails: the section \<open>## Q & A: it is ok to go\<close> is 24 characters long
  and becomes a chunk, but none of its words has three characters, so its keyword set
  is empty; it is in the loaded collection that \<open>retrieve\<close> iterates over.
\<close>

theorem empty_keywords_counterexample:
  "length ''## Q & A: it is ok to go'' = 24 \<and>
   map content (SimpleRAG_load_documents (Some [(''a.md'', Some ''## Q & A: it is ok to go'')])) =
     [''## Q & A: it is ok to go''] \<and>
   map doc_keywords (SimpleRAG_load_documents (Some [(''a.md'', Some ''## Q & A: it is ok to go'')])) =
     [{}]"
  by code_simp

section \<open>Properties of the chat pipeline\<close>

lemma endswith_single: "endswith s [c] \<longleftrightarrow> s \<noteq> [] \<and> last s = c"
  by (cases s rule: rev_cases) (auto simp: endswith_def)

lemma flush_cond:
  "list_ex (\<lambda>p. endswith (rstrip b) p) delimiters \<longleftrightarrow>
   rstrip b \<noteq> [] \<and> last (rstrip b) \<in> set ''.!?,:;''"
  by (auto simp: delimiters_def endswith_single)

lemma find_close_Some_iff:
  "find_close cs = Some r \<longleftrightarrow>
   (\<exists>x. cs = x @ CHR '']'' # r \<and> CHR '']'' \<notin> set x \<and> CHR 0x0A \<notin> set x)"
proof (induction cs)
  case Nil
  then show ?case by simp
next
  case (Cons c cs)
  show ?case
  proof (cases "c = CHR '']''")
    case True
    then show ?thesis
      apply auto
      subgoal for x by (cases x) auto
      done
  next
    case False
    note nc = this
    show ?thesis
    proof (cases "c = CHR 0x0A")
      case True
      then show ?thesis
        apply auto
        subgoal for x by (cases x) auto
        done
    next
      case False
      with nc Cons show ?thesis
        apply auto
         apply (rule_tac x="c # x" in exI)
         apply simp
        subgoal for x by (cases x) auto
        done
    qed
  qed
qed

lemma find_close_append_skip:
  "CHR '']'' \<notin> set x \<Longrightarrow> CHR 0x0A \<notin> set x \<Longrightarrow> find_close (x @ CHR '']'' # r) = Some r"
  by (simp add: find_close_Some_iff)

lemma find_close_found:
  "CHR 0x0A \<notin> set x \<Longrightarrow> find_close (x @ CHR '']'' # b) \<noteq> None"
  by (induction x) auto

lemma find_close_not_None_iff:
  "find_close cs \<noteq> None \<longleftrightarrow> (\<exists>x b. cs = x @ CHR '']'' # b \<and> CHR 0x0A \<notin> set x)"
proof
  assume "find_close cs \<noteq> None"
  then obtain r where "find_close cs = Some r" by blast
  then show "\<exists>x b. cs = x @ CHR '']'' # b \<and> CHR 0x0A \<notin> set x"
    unfolding find_close_Some_iff by blast
next
  assume "\<exists>x b. cs = x @ CHR '']'' # b \<and> CHR 0x0A \<notin> set x"
  then show "find_close cs \<noteq> None" using find_close_found by blast
qed

lemma strip_brackets_prefix:
  "CHR ''['' \<notin> set a \<Longrightarrow> strip_brackets (a @ s) = a @ strip_brackets s"
  by (induction a) auto

lemma strip_brackets_span:
  assumes "CHR ''['' \<notin> set a" "CHR '']'' \<notin> set x" "CHR 0x0A \<notin> set x"
  shows "strip_brackets (a @ ''['' @ x @ '']'' @ b) = a @ strip_brackets b"
  using assms by (simp add: strip_brackets_prefix find_close_append_skip)

lemma has_span_iff:
  "has_span s \<longleftrightarrow> (\<exists>a x b. s = a @ ''['' @ x @ '']'' @ b \<and> CHR 0x0A \<notin> set x)"
proof (induction s)
  case Nil
  then show ?case by simp
next
  case (Cons c cs)
  show ?case
  proof
    assume "has_span (c # cs)"
    then consider "c = CHR ''[''" "find_close cs \<noteq> None" | "has_span cs" by auto
    then show "\<exists>a x b. c # cs = a @ ''['' @ x @ '']'' @ b \<and> CHR 0x0A \<notin> set x"
    proof cases
      case 1
      then obtain x b where "cs = x @ CHR '']'' # b" "CHR 0x0A \<notin> set x"
        unfolding find_close_not_None_iff by blast
      with 1 have "c # cs = [] @ ''['' @ x @ '']'' @ b \<and> CHR 0x0A \<notin> set x" by simp
      then show ?thesis by blast
    next
      case 2
      with Cons obtain a x b where "cs = a @ ''['' @ x @ '']'' @ b" "CHR 0x0A \<notin> set x"
        by blast
      then have "c # cs = (c # a) @ ''['' @ x @ '']'' @ b \<and> CHR 0x0A \<notin> set x" by simp
      then show ?thesis by blast
    qed
  next
    assume "\<exists>a x b. c # cs = a @ ''['' @ x @ '']'' @ b \<and> CHR 0x0A \<notin> set x"
    then obtain a x b where eq: "c # cs = a @ ''['' @ x @ '']'' @ b"
      and nl: "CHR 0x0A \<notin> set x" by blast
    show "has_span (c # cs)"
    proof (cases a)
      case Nil
      with eq have "c = CHR ''[''" "cs = x @ CHR '']'' # b" by auto
      with nl show ?thesis by (simp add: find_close_found)
    next
      case (Cons a0 a')
      with eq have "cs = a' @ ''['' @ x @ '']'' @ b" by simp
      with nl Cons.IH have "has_span cs" by blast
      then show ?thesis by simp
    qed
  qed
qed

lemma has_span_infix: "has_span s \<Longrightarrow> has_span (p @ s @ q)"
proof -
  assume "has_span s"
  then obtain a x b where "s = a @ ''['' @ x @ '']'' @ b" "CHR 0x0A \<notin> set x"
    unfolding has_span_iff by blast
  then have "p @ s @ q = (p @ a) @ ''['' @ x @ '']'' @ (b @ q) \<and> CHR 0x0A \<notin> set x" by simp
  then show ?thesis unfolding has_span_iff by blast
qed

lemma strip_infix: "\<exists>p q. s = p @ strip s @ q"
proof -
  let ?t = "dropWhile is_space s"
  have "s = takeWhile is_space s @ ?t" by simp
  moreover have "?t = rev (dropWhile is_space (rev ?t)) @ rev (takeWhile is_space (rev ?t))"
    by (metis rev_append rev_rev_ident takeWhile_dropWhile_id)
  ultimately have "s = takeWhile is_space s @ strip s @ rev (takeWhile is_space (rev ?t))"
    by (simp add: strip_def rstrip_def lstrip_def)
  then show ?thesis by blast
qed

lemma no_span_strip: "\<not> has_span s \<Longrightarrow> \<not> has_span (strip s)"
  using strip_infix [of s] has_span_infix by metis

lemma find_close_strip_None: "find_close cs = None \<Longrightarrow> find_close (strip_brackets cs) = None"
  by (induction cs rule: strip_brackets.induct) (auto split: if_splits option.splits)

lemma no_span_strip_brackets: "\<not> has_span (strip_brackets s)"
  by (induction s rule: strip_brackets.induct)
    (auto split: option.splits simp: find_close_strip_None)

lemma strip_brackets_id: "\<not> has_span s \<Longrightarrow> strip_brackets s = s"
  by (induction s rule: strip_brackets.induct) (auto split: option.splits)

lemma find_close_snoc_space: "find_close (cs @ '' '') = None \<longleftrightarrow> find_close cs = None"
  by (induction cs) auto

lemma has_span_snoc_space: "has_span (s @ '' '') = has_span s"
  by (induction s) (auto simp: find_close_snoc_space)

lemma lstrip_keeps: "\<not> is_space c \<Longrightarrow> \<exists>a'. lstrip (a @ c # r) = a' @ c # r"
  unfolding lstrip_def by (induction a) auto

lemma rstrip_keeps:
  assumes "\<not> is_space c"
  shows "\<exists>b'. rstrip (l @ c # b) = l @ c # b'"
proof -
  from assms obtain b'' where "dropWhile is_space (rev b @ c # rev l) = b'' @ c # rev l"
    using lstrip_keeps [of c "rev b" "rev l"] unfolding lstrip_def by blast
  then have "rstrip (l @ c # b) = l @ c # rev b''" by (simp add: rstrip_def)
  then show ?thesis by blast
qed

lemma not_space_brackets: "\<not> is_space CHR ''[''" "\<not> is_space CHR '']''"
  by (simp_all add: is_space_def)

lemma strip_keeps_span:
  "\<exists>a' b'. strip (a @ ''['' @ x @ '']'' @ b) = a' @ ''['' @ x @ '']'' @ b'"
proof -
  obtain a' where 1: "lstrip (a @ CHR ''['' # (x @ CHR '']'' # b)) = a' @ CHR ''['' # (x @ CHR '']'' # b)"
    using lstrip_keeps [OF not_space_brackets(1)] by blast
  obtain b' where 2: "rstrip ((a' @ CHR ''['' # x) @ CHR '']'' # b) = (a' @ CHR ''['' # x) @ CHR '']'' # b'"
    using rstrip_keeps [OF not_space_brackets(2)] by blast
  from 1 2 have "strip (a @ ''['' @ x @ '']'' @ b) = a' @ ''['' @ x @ '']'' @ b'"
    by (simp add: strip_def)
  then show ?thesis by blast
qed

lemma chat_token_no_flush:
  "\<not> (rstrip (buffer st @ token) \<noteq> [] \<and> last (rstrip (buffer st @ token)) \<in> set ''.!?,:;'' \<and>
      5 < length (buffer st @ token)) \<Longrightarrow>
   chat_token synth st token =
     Inr \<lparr>buffer = buffer st @ token, full_response = full_response st @ token, sent = sent st\<rparr>"
  unfolding chat_token_def Let_def flush_cond by auto

lemma chat_token_flush_empty:
  "rstrip (buffer st @ token) \<noteq> [] \<Longrightarrow> last (rstrip (buffer st @ token)) \<in> set ''.!?,:;'' \<Longrightarrow>
   5 < length (buffer st @ token) \<Longrightarrow> strip (strip_brackets (buffer st @ token)) = [] \<Longrightarrow>
   chat_token synth st token =
     Inr \<lparr>buffer = [], full_response = full_response st @ token, sent = sent st\<rparr>"
  unfolding chat_token_def Let_def flush_cond by simp

lemma chat_token_flush_emit:
  "rstrip (buffer st @ token) \<noteq> [] \<Longrightarrow> last (rstrip (buffer st @ token)) \<in> set ''.!?,:;'' \<Longrightarrow>
   5 < length (buffer st @ token) \<Longrightarrow> strip (strip_brackets (buffer st @ token)) = clean \<Longrightarrow>
   clean \<noteq> [] \<Longrightarrow> synth clean = Some wav \<Longrightarrow>
   chat_token synth st token =
     Inr \<lparr>buffer = [], full_response = full_response st @ token,
          sent = sent st @ [TextChunk (clean @ '' ''), AudioBytes wav]\<rparr>"
  unfolding chat_token_def Let_def flush_cond by simp

lemma flush_remaining_emit:
  "strip (buffer st) \<noteq> [] \<Longrightarrow> strip (strip_brackets (buffer st)) = clean \<Longrightarrow> clean \<noteq> [] \<Longrightarrow>
   synth clean = Some wav \<Longrightarrow>
   flush_remaining synth st = Inr (st\<lparr>sent := sent st @ [TextChunk clean, AudioBytes wav]\<rparr>)"
  unfolding flush_remaining_def Let_def by simp

lemma flush_remaining_blank:
  "strip (buffer st) = [] \<Longrightarrow> flush_remaining synth st = Inr st"
  unfolding flush_remaining_def by simp

subsection \<open>Invariants of the loop\<close>

lemma paired_snoc2: "paired es \<Longrightarrow> paired (es @ [TextChunk t, AudioBytes w])"
  by (induction es rule: paired.induct) auto

lemma clean_chunk: "\<not> has_span (strip (strip_brackets b))" "\<not> has_span (strip (strip_brackets b) @ '' '')"
  by (simp_all add: no_span_strip no_span_strip_brackets has_span_snoc_space)

lemma chat_token_Inr:
  assumes "chat_token synth st token = Inr st'"
  shows "full_response st' = full_response st @ token \<and>
         (paired (sent st) \<longrightarrow> paired (sent st')) \<and>
         (list_all chunk_clean (sent st) \<longrightarrow> list_all chunk_clean (sent st')) \<and>
         (Done \<notin> set (sent st) \<longrightarrow> Done \<notin> set (sent st'))"
  using assms unfolding chat_token_def Let_def
  by (auto split: if_splits option.splits simp: paired_snoc2 clean_chunk)

lemma chat_token_Inl:
  assumes "chat_token synth st token = Inl evs"
  shows "(list_all chunk_clean (sent st) \<longrightarrow> list_all chunk_clean evs) \<and>
         (Done \<notin> set (sent st) \<longrightarrow> Done \<notin> set evs)"
  using assms unfolding chat_token_def Let_def
  by (auto split: if_splits option.splits simp: clean_chunk)

lemma chat_loop_Inr:
  assumes "chat_loop synth st stream = Inr st'"
  shows "full_response st' = full_response st @ concat stream \<and>
         (paired (sent st) \<longrightarrow> paired (sent st')) \<and>
         (list_all chunk_clean (sent st) \<longrightarrow> list_all chunk_clean (sent st')) \<and>
         (Done \<notin> set (sent st) \<longrightarrow> Done \<notin> set (sent st'))"
  using assms
proof (induction stream arbitrary: st)
  case Nil
  then show ?case by simp
next
  case (Cons token stream)
  then obtain st1 where 1: "chat_token synth st token = Inr st1"
    and 2: "chat_loop synth st1 stream = Inr st'"
    by (auto split: sum.splits)
  from chat_token_Inr [OF 1] Cons.IH [OF 2] show ?case by simp
qed

lemma chat_loop_Inl:
  assumes "chat_loop synth st stream = Inl evs"
  shows "(list_all chunk_clean (sent st) \<longrightarrow> list_all chunk_clean evs) \<and>
         (Done \<notin> set (sent st) \<longrightarrow> Done \<notin> set evs)"
  using assms
proof (induction stream arbitrary: st)
  case Nil
  then show ?case by simp
next
  case (Cons token stream)
  show ?case
  proof (cases "chat_token synth st token")
    case (Inl e)
    with Cons.prems have "e = evs" by simp
    with chat_token_Inl [OF Inl] show ?thesis by simp
  next
    case (Inr st1)
    with Cons.prems have "chat_loop synth st1 stream = Inl evs" by simp
    from Cons.IH [OF this] chat_token_Inr [OF Inr] show ?thesis by simp
  qed
qed

lemma flush_remaining_Inr:
  assumes "flush_remaining synth st = Inr st'"
  shows "full_response st' = full_response st \<and>
         (paired (sent st) \<longrightarrow> paired (sent st')) \<and>
         (list_all chunk_clean (sent st) \<longrightarrow> list_all chunk_clean (sent st')) \<and>
         (Done \<notin> set (sent st) \<longrightarrow> Done \<notin> set (sent st'))"
  using assms unfolding flush_remaining_def Let_def
  by (auto split: if_splits option.splits simp: paired_snoc2 clean_chunk)

lemma flush_remaining_Inl:
  assumes "flush_remaining synth st = Inl evs"
  shows "(list_all chunk_clean (sent st) \<longrightarrow> list_all chunk_clean evs) \<and>
         (Done \<notin> set (sent st) \<longrightarrow> Done \<notin> set evs)"
  using assms unfolding flush_remaining_def Let_def
  by (auto split: if_splits option.splits simp: clean_chunk)

subsection \<open>The whole turn\<close>

lemma history_add:
  "history (HistoryManager_add now h user_text assistant_text) =
     history h @ [\<lparr>timestamp = now, user = user_text, assistant = assistant_text\<rparr>]"
  by (simp add: HistoryManager_add_def HistoryManager_save_def Let_def)

lemma chat_done:
  assumes "Done \<in> set (fst (chat synth now user_text stream h))"
  shows "\<exists>evs. chat synth now user_text stream h =
           (evs @ [Done], HistoryManager_add now h user_text (strip (concat stream))) \<and>
         paired evs"
proof -
  let ?init = "\<lparr>buffer = [], full_response = [], sent = []\<rparr> :: 'a turn"
  from assms have u: "user_text \<noteq> []" by (auto simp: chat_def)
  show ?thesis
  proof (cases "chat_loop synth ?init stream")
    case (Inl evs)
    from chat_loop_Inl [OF Inl] have "Done \<notin> set evs" by simp
    with assms u Inl show ?thesis by (simp add: chat_def)
  next
    case (Inr st)
    note loop = chat_loop_Inr [OF Inr]
    show ?thesis
    proof (cases "flush_remaining synth st")
      case (Inl evs)
      from flush_remaining_Inl [OF Inl] loop have "Done \<notin> set evs" by simp
      with assms u Inr Inl show ?thesis by (simp add: chat_def)
    next
      case r: (Inr st')
      from flush_remaining_Inr [OF r] loop
      have "full_response st' = concat stream" "paired (sent st')" by simp_all
      with u Inr r show ?thesis by (intro exI [of _ "sent st'"]) (simp add: chat_def)
    qed
  qed
qed

lemma chat_clean: "list_all chunk_clean (fst (chat synth now user_text stream h))"
proof -
  let ?init = "\<lparr>buffer = [], full_response = [], sent = []\<rparr> :: 'a turn"
  show ?thesis
  proof (cases "chat_loop synth ?init stream")
    case (Inl evs)
    from chat_loop_Inl [OF Inl] show ?thesis using Inl by (simp add: chat_def)
  next
    case (Inr st)
    note loop = chat_loop_Inr [OF Inr]
    show ?thesis
    proof (cases "flush_remaining synth st")
      case (Inl evs)
      from flush_remaining_Inl [OF Inl] loop show ?thesis using Inr Inl by (simp add: chat_def)
    next
      case r: (Inr st')
      from flush_remaining_Inr [OF r] loop show ?thesis using Inr r by (simp add: chat_def)
    qed
  qed
qed

lemma chat_text_chunk_clean:
  "TextChunk t \<in> set (fst (chat synth now user_text stream h)) \<Longrightarrow> \<not> has_span t"
  using chat_clean [of synth now user_text stream h] by (auto simp: list_all_iff)

text \<open>
  Claim C9, as the code has it: a turn that reaches its terminal event appends to the
  history one exchange holding the user text and the concatenation of all generated
  tokens, trimmed and with its bracketed spans in place: whatever bracketed span the
  generated text contains is still in the persisted assistant text. Of the emitted
  text chunks only this holds: no single chunk (be the turn completed or aborted)
  contains a \<open>[\<close> followed on the same line by a \<open>]\<close>. A span of the generated text that
  holds a line feed, or that a flush cuts in two, is emitted.
\<close>

theorem history_keeps_brackets:
  "(Done \<in> set (fst (chat synth now user_text stream h)) \<longrightarrow>
      history (snd (chat synth now user_text stream h)) =
        history h @ [\<lparr>timestamp = now, user = user_text, assistant = strip (concat stream)\<rparr>] \<and>
      (\<forall>a x b. concat stream = a @ ''['' @ x @ '']'' @ b \<longrightarrow>
         (\<exists>a' b'. strip (concat stream) = a' @ ''['' @ x @ '']'' @ b'))) \<and>
   (TextChunk t \<in> set (fst (chat synth now user_text stream h)) \<longrightarrow> \<not> has_span t) \<and>
   has_span t = (\<exists>a x b. t = a @ ''['' @ x @ '']'' @ b \<and> CHR 0x0A \<notin> set x)"
proof -
  have "Done \<in> set (fst (chat synth now user_text stream h)) \<longrightarrow>
      history (snd (chat synth now user_text stream h)) =
        history h @ [\<lparr>timestamp = now, user = user_text, assistant = strip (concat stream)\<rparr>]"
  proof
    assume "Done \<in> set (fst (chat synth now user_text stream h))"
    from chat_done [OF this] obtain evs where
      "chat synth now user_text stream h =
         (evs @ [Done], HistoryManager_add now h user_text (strip (concat stream)))"
      by blast
    then show "history (snd (chat synth now user_text stream h)) =
        history h @ [\<lparr>timestamp = now, user = user_text, assistant = strip (concat stream)\<rparr>]"
      by (simp add: history_add)
  qed
  moreover have "\<forall>a x b. concat stream = a @ ''['' @ x @ '']'' @ b \<longrightarrow>
         (\<exists>a' b'. strip (concat stream) = a' @ ''['' @ x @ '']'' @ b')"
    using strip_keeps_span by metis
  ultimately show ?thesis
    using chat_text_chunk_clean [of t synth now user_text stream h] has_span_iff [of t]
    by blast
qed

theorem history_keeps_brackets_witness:
  "fst (chat Some ''2026-01-01T00:00:00'' ''hi'' [''Sure'', '' [laughs]'', '' thing.'', '' Bye'']
         \<lparr>history = [], history_file = None\<rparr>) =
     [TextChunk ''Sure  thing. '', AudioBytes ''Sure  thing.'', TextChunk ''Bye'',
      AudioBytes ''Bye'', Done] \<and>
   history (snd (chat Some ''2026-01-01T00:00:00'' ''hi''
         [''Sure'', '' [laughs]'', '' thing.'', '' Bye''] \<lparr>history = [], history_file = None\<rparr>)) =
     [\<lparr>timestamp = ''2026-01-01T00:00:00'', user = ''hi'',
       assistant = ''Sure [laughs] thing. Bye''\<rparr>] \<and>
   \<not> has_span ''Sure  thing. '' \<and> has_span ''Sure [laughs] thing. Bye''"
proof -
  let ?stream = "[''Sure'', '' [laughs]'', '' thing.'', '' Bye'']"
  let ?h = "\<lparr>history = [], history_file = None\<rparr>"
  let ?r = "chat Some ''2026-01-01T00:00:00'' ''hi'' ?stream ?h :: string event list \<times> history_manager"
  have e: "fst ?r = [TextChunk ''Sure  thing. '', AudioBytes ''Sure  thing.'', TextChunk ''Bye'',
      AudioBytes ''Bye'', Done]"
    by code_simp
  have s: "strip (concat ?stream) = ''Sure [laughs] thing. Bye''" by code_simp
  have sp: "has_span ''Sure [laughs] thing. Bye''" by code_simp
  have d: "Done \<in> set (fst ?r)" and t: "TextChunk ''Sure  thing. '' \<in> set (fst ?r)"
    unfolding e by simp_all
  from history_keeps_brackets [of Some "''2026-01-01T00:00:00''" "''hi''" ?stream ?h
      "''Sure  thing. ''"] d t
  have "history (snd ?r) = history ?h @ [\<lparr>timestamp = ''2026-01-01T00:00:00'', user = ''hi'',
           assistant = strip (concat ?stream)\<rparr>]"
    and "\<not> has_span ''Sure  thing. ''"
    by blast+
  with e s sp show ?thesis by simp
qed

subsection \<open>The flush rule\<close>

lemma example_hello:
  "chat_loop Some \<lparr>buffer = [], full_response = [], sent = []\<rparr> (map (\<lambda>c. [c]) ''Hello'') =
     Inr \<lparr>buffer = ''Hello'', full_response = ''Hello'', sent = []\<rparr>"
  by code_simp

lemma example_hello_comma:
  "chat_loop Some \<lparr>buffer = [], full_response = [], sent = []\<rparr> (map (\<lambda>c. [c]) ''Hello,'') =
     Inr \<lparr>buffer = [], full_response = ''Hello,'',
          sent = [TextChunk ''Hello, '', AudioBytes ''Hello,'']\<rparr>"
  by code_simp

lemma example_how_are_you:
  "chat_loop Some \<lparr>buffer = [], full_response = [], sent = []\<rparr>
       (map (\<lambda>c. [c]) ''Hello, how are you'') =
     Inr \<lparr>buffer = '' how are you'', full_response = ''Hello, how are you'',
          sent = [TextChunk ''Hello, '', AudioBytes ''Hello,'']\<rparr>"
  by code_simp

lemma example_question:
  "chat_loop Some \<lparr>buffer = [], full_response = [], sent = []\<rparr>
       (map (\<lambda>c. [c]) ''Hello, how are you?'') =
     Inr \<lparr>buffer = [], full_response = ''Hello, how are you?'',
          sent = [TextChunk ''Hello, '', AudioBytes ''Hello,'',
                  TextChunk ''how are you? '', AudioBytes ''how are you?'']\<rparr>"
  by code_simp

lemma example_thanks_loop:
  "chat_loop Some \<lparr>buffer = [], full_response = [], sent = []\<rparr>
       (map (\<lambda>c. [c]) ''Hello, how are you? Thanks'') =
     Inr \<lparr>buffer = '' Thanks'', full_response = ''Hello, how are you? Thanks'',
          sent = [TextChunk ''Hello, '', AudioBytes ''Hello,'',
                  TextChunk ''how are you? '', AudioBytes ''how are you?'']\<rparr>"
  by code_simp

lemma example_thanks_flush:
  "flush_remaining Some
     \<lparr>buffer = '' Thanks'', full_response = ''Hello, how are you? Thanks'',
      sent = [TextChunk ''Hello, '', AudioBytes ''Hello,'',
              TextChunk ''how are you? '', AudioBytes ''how are you?'']\<rparr> =
   Inr \<lparr>buffer = '' Thanks'', full_response = ''Hello, how are you? Thanks'',
        sent = [TextChunk ''Hello, '', AudioBytes ''Hello,'',
                TextChunk ''how are you? '', AudioBytes ''how are you?'',
                TextChunk ''Thanks'', AudioBytes ''Thanks'']\<rparr>"
  by code_simp

lemma example_turn:
  "user_text \<noteq> [] \<Longrightarrow>
   fst (chat Some now user_text (map (\<lambda>c. [c]) ''Hello, how are you? Thanks'') h) =
     [TextChunk ''Hello, '', AudioBytes ''Hello,'',
      TextChunk ''how are you? '', AudioBytes ''how are you?'',
      TextChunk ''Thanks'', AudioBytes ''Thanks'', Done]"
  unfolding chat_def by (simp only: example_thanks_loop sum.case example_thanks_flush) simp

lemma chat_paired:
  "Done \<in> set (fst (chat synth now user_text stream h)) \<Longrightarrow>
   \<exists>evs. fst (chat synth now user_text stream h) = evs @ [Done] \<and> paired evs"
  using chat_done [of synth now user_text stream h] by auto


lemma find_close_line_feed:
  "CHR '']'' \<notin> set x \<Longrightarrow> CHR 0x0A \<in> set x \<Longrightarrow> find_close (x @ r) = None"
  by (induction x) auto

lemma strip_brackets_line_feed:
  assumes "CHR ''['' \<notin> set a" "CHR ''['' \<notin> set x" "CHR '']'' \<notin> set x" "CHR 0x0A \<in> set x"
  shows "strip_brackets (a @ ''['' @ x @ '']'' @ b) = a @ ''['' @ x @ '']'' @ strip_brackets b"
proof -
  have "strip_brackets (CHR ''['' # (x @ CHR '']'' # b)) =
        CHR ''['' # strip_brackets (x @ CHR '']'' # b)"
    using assms(3,4) by (simp add: find_close_line_feed)
  also have "strip_brackets (x @ CHR '']'' # b) = x @ strip_brackets (CHR '']'' # b)"
    using assms(2) by (rule strip_brackets_prefix)
  finally show ?thesis using assms(1) by (simp add: strip_brackets_prefix)
qed

text \<open>
  Claim C1, as the code has it: after a token is appended, the loop flushes exactly when the right-trimmed
  buffer ends with one of \<open>. ! ? , : ;\<close> and the buffer is longer than 5 characters;
  otherwise the buffer only grows. A flush clears the buffer and, when the buffer with
  its bracketed spans removed and trimmed is not empty, sends that text as a text chunk
  followed by the audio synthesized for it. The spans removed are those that lie on
  one line: removing them deletes the leftmost \<open>[\<close>, the text up to the first \<open>]\<close> after
  it on the same line and that \<open>]\<close>, leaves no such span behind and changes no text
  without one; a bracketed text that holds a line feed and no further \<open>[\<close> stays in
  the chunk. At the end of the stream a buffer
  that is not blank is flushed the same way, once. A turn that completes has sent
  text chunks each followed by one audio payload, then the terminal event. For the
  stream that spells \<open>Hello, how are you? Thanks\<close> one character per token, nothing is
  sent up to \<open>Hello\<close>, the first flush comes at \<open>Hello,\<close>, the second at
  \<open>how are you?\<close>, and \<open>Thanks\<close> is flushed at the end of the stream.
\<close>

theorem chat_flush_rule:
  "(\<not> (rstrip (buffer st @ token) \<noteq> [] \<and> last (rstrip (buffer st @ token)) \<in> set ''.!?,:;'' \<and>
        5 < length (buffer st @ token)) \<longrightarrow>
      chat_token synth st token =
        Inr \<lparr>buffer = buffer st @ token, full_response = full_response st @ token,
             sent = sent st\<rparr>) \<and>
   (rstrip (buffer st @ token) \<noteq> [] \<and> last (rstrip (buffer st @ token)) \<in> set ''.!?,:;'' \<and>
      5 < length (buffer st @ token) \<longrightarrow>
      (strip (strip_brackets (buffer st @ token)) = [] \<longrightarrow>
         chat_token synth st token =
           Inr \<lparr>buffer = [], full_response = full_response st @ token, sent = sent st\<rparr>) \<and>
      (strip (strip_brackets (buffer st @ token)) \<noteq> [] \<and>
       synth (strip (strip_brackets (buffer st @ token))) = Some wav \<longrightarrow>
         chat_token synth st token =
           Inr \<lparr>buffer = [], full_response = full_response st @ token,
                sent = sent st @ [TextChunk (strip (strip_brackets (buffer st @ token)) @ '' ''),
                                  AudioBytes wav]\<rparr>)) \<and>
   (CHR ''['' \<notin> set a \<and> CHR '']'' \<notin> set x \<and> CHR 0x0A \<notin> set x \<longrightarrow>
      strip_brackets (a @ ''['' @ x @ '']'' @ b) = a @ strip_brackets b) \<and>
   \<not> has_span (strip_brackets s) \<and>
   (\<not> has_span s \<longrightarrow> strip_brackets s = s) \<and>
   (strip (buffer st) = [] \<longrightarrow> flush_remaining synth st = Inr st) \<and>
   (strip (buffer st) \<noteq> [] \<and> strip (strip_brackets (buffer st)) \<noteq> [] \<and>
    synth (strip (strip_brackets (buffer st))) = Some wav \<longrightarrow>
      flush_remaining synth st =
        Inr (st\<lparr>sent := sent st @ [TextChunk (strip (strip_brackets (buffer st))),
                                  AudioBytes wav]\<rparr>)) \<and>
   (Done \<in> set (fst (chat synth now user_text stream h)) \<longrightarrow>
      (\<exists>evs. fst (chat synth now user_text stream h) = evs @ [Done] \<and> paired evs)) \<and>
   chat_loop Some \<lparr>buffer = [], full_response = [], sent = []\<rparr> (map (\<lambda>c. [c]) ''Hello'') =
     Inr \<lparr>buffer = ''Hello'', full_response = ''Hello'', sent = []\<rparr> \<and>
   chat_loop Some \<lparr>buffer = [], full_response = [], sent = []\<rparr> (map (\<lambda>c. [c]) ''Hello,'') =
     Inr \<lparr>buffer = [], full_response = ''Hello,'',
          sent = [TextChunk ''Hello, '', AudioBytes ''Hello,'']\<rparr> \<and>
   chat_loop Some \<lparr>buffer = [], full_response = [], sent = []\<rparr>
       (map (\<lambda>c. [c]) ''Hello, how are you'') =
     Inr \<lparr>buffer = '' how are you'', full_response = ''Hello, how are you'',
          sent = [TextChunk ''Hello, '', AudioBytes ''Hello,'']\<rparr> \<and>
   chat_loop Some \<lparr>buffer = [], full_response = [], sent = []\<rparr>
       (map (\<lambda>c. [c]) ''Hello, how are you?'') =
     Inr \<lparr>buffer = [], full_response = ''Hello, how are you?'',
          sent = [TextChunk ''Hello, '', AudioBytes ''Hello,'',
                  TextChunk ''how are you? '', AudioBytes ''how are you?'']\<rparr> \<and>
   (user_text \<noteq> [] \<longrightarrow>
      fst (chat Some now user_text (map (\<lambda>c. [c]) ''Hello, how are you? Thanks'') h) =
        [TextChunk ''Hello, '', AudioBytes ''Hello,'',
         TextChunk ''how are you? '', AudioBytes ''how are you?'',
         TextChunk ''Thanks'', AudioBytes ''Thanks'', Done]) \<and>
   (CHR ''['' \<notin> set a \<and> CHR ''['' \<notin> set x \<and> CHR '']'' \<notin> set x \<and> CHR 0x0A \<in> set x \<longrightarrow>
      strip_brackets (a @ ''['' @ x @ '']'' @ b) = a @ ''['' @ x @ '']'' @ strip_brackets b) \<and>
   has_span s = (\<exists>a x b. s = a @ ''['' @ x @ '']'' @ b \<and> CHR 0x0A \<notin> set x)"
  apply (intro conjI impI)
                apply (rule chat_token_no_flush, assumption)
               apply (rule chat_token_flush_empty; simp)
              apply (rule chat_token_flush_emit; simp)
             apply (rule strip_brackets_span; simp)
            apply (rule no_span_strip_brackets)
           apply (rule strip_brackets_id, assumption)
          apply (rule flush_remaining_blank, assumption)
         apply (rule flush_remaining_emit; simp)
        apply (rule chat_paired, assumption)
       apply (rule example_hello)
      apply (rule example_hello_comma)
     apply (rule example_how_are_you)
    apply (rule example_question)
    apply (rule example_turn, assumption)
   apply (rule strip_brackets_line_feed; simp)
  apply (rule has_span_iff)
  done

theorem chat_flush_rule_witness:
  "chat_token Some \<lparr>buffer = ''Ok'', full_response = ''Ok'', sent = []\<rparr> '','' =
     Inr \<lparr>buffer = ''Ok,'', full_response = ''Ok,'', sent = []\<rparr> \<and>
   chat_token Some \<lparr>buffer = ''Ok, [sighs] fine'', full_response = ''Ok, [sighs] fine'', sent = []\<rparr>
       ''. '' =
     Inr \<lparr>buffer = [], full_response = ''Ok, [sighs] fine. '',
          sent = [TextChunk ''Ok,  fine. '', AudioBytes ''Ok,  fine.'']\<rparr> \<and>
   chat_token Some \<lparr>buffer = ''[sighs]'', full_response = ''[sighs]'', sent = []\<rparr> '' ...'' =
     Inr \<lparr>buffer = [], full_response = ''[sighs] ...'',
          sent = [TextChunk ''... '', AudioBytes ''...'']\<rparr> \<and>
   strip_brackets ''Ok, [sighs] fine. '' = ''Ok,  fine. '' \<and>
   flush_remaining Some \<lparr>buffer = '' Thanks'', full_response = ''x Thanks'', sent = []\<rparr> =
     Inr \<lparr>buffer = '' Thanks'', full_response = ''x Thanks'',
          sent = [TextChunk ''Thanks'', AudioBytes ''Thanks'']\<rparr> \<and>
   fst (chat Some ''2026-01-01T00:00:00'' ''hi'' (map (\<lambda>c. [c]) ''Hello, how are you? Thanks'')
          \<lparr>history = [], history_file = None\<rparr>) =
     [TextChunk ''Hello, '', AudioBytes ''Hello,'',
      TextChunk ''how are you? '', AudioBytes ''how are you?'',
      TextChunk ''Thanks'', AudioBytes ''Thanks'', Done]"
proof -
  let ?s1 = "\<lparr>buffer = ''Ok'', full_response = ''Ok'', sent = []\<rparr> :: string turn"
  let ?s2 = "\<lparr>buffer = ''Ok, [sighs] fine'', full_response = ''Ok, [sighs] fine'', sent = []\<rparr>
     :: string turn"
  let ?s3 = "\<lparr>buffer = '' Thanks'', full_response = ''x Thanks'', sent = []\<rparr> :: string turn"
  have n1: "\<not> (rstrip (buffer ?s1 @ '','') \<noteq> [] \<and>
      last (rstrip (buffer ?s1 @ '','')) \<in> set ''.!?,:;'' \<and> 5 < length (buffer ?s1 @ '',''))"
    by simp
  have d2: "rstrip (buffer ?s2 @ ''. '') \<noteq> [] \<and>
      last (rstrip (buffer ?s2 @ ''. '')) \<in> set ''.!?,:;'' \<and> 5 < length (buffer ?s2 @ ''. '')"
    by code_simp
  have c2: "strip (strip_brackets (buffer ?s2 @ ''. '')) = ''Ok,  fine.''" by code_simp
  have b2: "strip_brackets ''Ok, [sighs] fine. '' = ''Ok,  fine. ''" by code_simp
  have c3: "strip (buffer ?s3) \<noteq> []" "strip (strip_brackets (buffer ?s3)) = ''Thanks''"
    by code_simp+
  have t3: "chat_token Some \<lparr>buffer = ''[sighs]'', full_response = ''[sighs]'', sent = []\<rparr> '' ...'' =
     Inr \<lparr>buffer = [], full_response = ''[sighs] ...'',
          sent = [TextChunk ''... '', AudioBytes ''...'']\<rparr>"
    by code_simp
  note t = chat_flush_rule [of ?s1 "'',''" Some "''Ok,  fine.''" "''Ok, ''" "''sighs''" "'' fine. ''"
      "''[sighs]''" "''2026-01-01T00:00:00''" "''hi''" "[]" "\<lparr>history = [], history_file = None\<rparr>"]
  note t2 = chat_flush_rule [of ?s2 "''. ''" Some "''Ok,  fine.''" "''Ok, ''" "''sighs''" "'' fine. ''"
      "''[sighs]''" "''2026-01-01T00:00:00''" "''hi''" "[]" "\<lparr>history = [], history_file = None\<rparr>"]
  note t3' = chat_flush_rule [of ?s3 "''. ''" Some "''Thanks''" "''Ok, ''" "''sighs''" "'' fine. ''"
      "''[sighs]''" "''2026-01-01T00:00:00''" "''hi''" "[]" "\<lparr>history = [], history_file = None\<rparr>"]
  from t n1 have 1: "chat_token Some ?s1 '','' =
      Inr \<lparr>buffer = buffer ?s1 @ '','', full_response = full_response ?s1 @ '','', sent = sent ?s1\<rparr>"
    by blast
  from t2 d2 c2 have 2: "chat_token Some ?s2 ''. '' =
      Inr \<lparr>buffer = [], full_response = full_response ?s2 @ ''. '',
           sent = sent ?s2 @ [TextChunk (strip (strip_brackets (buffer ?s2 @ ''. '')) @ '' ''),
                              AudioBytes ''Ok,  fine.'']\<rparr>"
    by simp
  from t3' c3 have 3: "flush_remaining Some ?s3 =
      Inr (?s3\<lparr>sent := sent ?s3 @ [TextChunk (strip (strip_brackets (buffer ?s3))),
                                    AudioBytes ''Thanks'']\<rparr>)"
    by simp
  from t have 4: "fst (chat Some ''2026-01-01T00:00:00'' ''hi''
          (map (\<lambda>c. [c]) ''Hello, how are you? Thanks'') \<lparr>history = [], history_file = None\<rparr>) =
     [TextChunk ''Hello, '', AudioBytes ''Hello,'',
      TextChunk ''how are you? '', AudioBytes ''how are you?'',
      TextChunk ''Thanks'', AudioBytes ''Thanks'', Done]"
    by simp
  from 1 2 3 4 t3 b2 c2 c3 show ?thesis by simp
qed

text \<open>
  Claim C1 as stated fails on the removal of spans: the buffer \<open>Hi [a\<close>, line feed,
  \<open>b] ok.\<close> ends with a delimiter and is flushed, and the bracketed text, which holds a
  line feed, is sent and synthesized unchanged.
\<close>

theorem chat_flush_line_feed_counterexample:
  "chat_token Some \<lparr>buffer = ''Hi [a'', full_response = ''Hi [a'', sent = []\<rparr>
       (CHR 0x0A # ''b] ok.'') =
     Inr \<lparr>buffer = [], full_response = ''Hi [a'' @ CHR 0x0A # ''b] ok.'',
          sent = [TextChunk (''Hi [a'' @ CHR 0x0A # ''b] ok. ''),
                  AudioBytes (''Hi [a'' @ CHR 0x0A # ''b] ok.'')]\<rparr>"
  by code_simp

text \<open>
  Claim C9 as stated fails on the emitted chunks: for the tokens \<open>Hello,\<close>, \<open> [laughs,\<close>,
  \<open> loudly]\<close>, \<open> ok.\<close> the generated text holds the span \<open>[laughs, loudly]\<close>, which the
  history keeps, and the flush at \<open> [laughs,\<close> cuts it, so both halves are emitted;
  and a bracketed text with a line feed inside is emitted whole.
\<close>

theorem emitted_span_counterexample:
  "chat Some ''2026-01-01T00:00:00'' ''hi'' [''Hello,'', '' [laughs,'', '' loudly]'', '' ok.'']
       \<lparr>history = [], history_file = None\<rparr> =
     ([TextChunk ''Hello, '', AudioBytes ''Hello,'',
       TextChunk ''[laughs, '', AudioBytes ''[laughs,'',
       TextChunk ''loudly] ok. '', AudioBytes ''loudly] ok.'', Done],
      \<lparr>history = [\<lparr>timestamp = ''2026-01-01T00:00:00'', user = ''hi'',
                    assistant = ''Hello, [laughs, loudly] ok.''\<rparr>],
       history_file = None\<rparr>) \<and>
   fst (chat Some ''2026-01-01T00:00:00'' ''hi'' [''Hi [a'', CHR 0x0A # ''b] ok.'']
       \<lparr>history = [], history_file = None\<rparr>) =
     [TextChunk (''Hi [a'' @ CHR 0x0A # ''b] ok. ''),
      AudioBytes (''Hi [a'' @ CHR 0x0A # ''b] ok.''), Done]"
  by code_simp

end
